theory Spec2Isabelle
  imports Complex_Main "HOL-Library.AList"
begin

section \<open>Values, errors and the outside world\<close>

text \<open>
  The loader of \<^verbatim>\<open>src/config.py\<close> works on the loosely typed values that
  \<^verbatim>\<open>yaml.safe_load\<close> returns and on the strings of the process environment.

  \<^item> A Python \<^verbatim>\<open>str\<close> is a \<^typ>\<open>string\<close> whose characters are read as the code
    points 0 to 255; code points from 256 on are not represented.
  \<^item> A Python \<^verbatim>\<open>dict\<close> with string keys is an association list in insertion order.
    A well-formed dict has distinct keys; lookups read the first binding.
  \<^item> A \<^verbatim>\<open>float\<close> is only stored and compared, never computed with; it is carried
    as the rational it denotes (no NaN, no infinity).
  \<^item> Dates, sets, byte strings and non-string keys, which YAML tags can also
    produce, are not represented.
\<close>

datatype pyval =
    PNone
  | PBool bool
  | PInt int
  | PFloat rat
  | PStr string
  | PList "pyval list"
  | PDict "(string \<times> pyval) list"

type_synonym pydict = "(string \<times> pyval) list"

text \<open>
  The exceptions that can leave the loader. \<open>ValueError\<close> is what \<^verbatim>\<open>int(...)\<close>
  raises on an unparseable string (the coercion error of the specification),
  \<open>YAMLError\<close> what the YAML parser raises on a malformed document (the parse
  error), \<open>OSError\<close> what \<^verbatim>\<open>open\<close> raises.
\<close>

datatype error = TypeError | AttributeError | ValueError | YAMLError | OSError

definition bind_err :: "error + 'a \<Rightarrow> ('a \<Rightarrow> error + 'b) \<Rightarrow> error + 'b" where
  "bind_err m f = (case m of Inl e \<Rightarrow> Inl e | Inr x \<Rightarrow> f x)"

text \<open>
  What the loader reads from outside: which paths exist, what opening and
  parsing the file at a path gives, and the process environment. A path is
  the string handed to \<^verbatim>\<open>Path\<close>.
\<close>

record world =
  path_exists :: "string \<Rightarrow> bool"
  read_yaml :: "string \<Rightarrow> error + pyval"
  getenv :: "string \<Rightarrow> string option"

text \<open>Truth value of a Python object, as \<^verbatim>\<open>if x\<close> and \<^verbatim>\<open>x or y\<close> test it.\<close>

fun py_truthy :: "pyval \<Rightarrow> bool" where
  "py_truthy PNone = False"
| "py_truthy (PBool b) = b"
| "py_truthy (PInt i) = (i \<noteq> 0)"
| "py_truthy (PFloat r) = (r \<noteq> 0)"
| "py_truthy (PStr s) = (s \<noteq> [])"
| "py_truthy (PList xs) = (xs \<noteq> [])"
| "py_truthy (PDict d) = (d \<noteq> [])"

text \<open>\<^verbatim>\<open>x.get(key, default)\<close>: only a dict has the method.\<close>

definition py_get :: "pyval \<Rightarrow> string \<Rightarrow> pyval \<Rightarrow> error + pyval" where
  "py_get x key dflt =
     (case x of
        PDict d \<Rightarrow> Inr (case map_of d key of Some v \<Rightarrow> v | None \<Rightarrow> dflt)
      | _ \<Rightarrow> Inl AttributeError)"

text \<open>\<^verbatim>\<open>**x\<close> in a call: anything but a mapping is a TypeError.\<close>

definition kwargs :: "pyval \<Rightarrow> error + pydict" where
  "kwargs x = (case x of PDict d \<Rightarrow> Inr d | _ \<Rightarrow> Inl TypeError)"

subsection \<open>The builtins \<^verbatim>\<open>int\<close> and \<^verbatim>\<open>str.lower\<close>\<close>

text \<open>
  \<^verbatim>\<open>int(s)\<close> for a string, base ten: optional whitespace, an optional sign, digits
  with single underscores between them, optional whitespace. Anything else
  raises ValueError (\<open>None\<close> here). The whitespace that \<^verbatim>\<open>int\<close> skips, among
  the code points below 256, is tab to carriage return, the space, and the
  code points 133 and 160. A string with more digits than the interpreter's
  limit raises ValueError as well: the limit is 4300 unless the interpreter is
  told otherwise, which the source never does. It counts the digits, leading
  zeros included, and neither the sign nor the underscores nor the whitespace.
\<close>

definition int_max_str_digits :: nat where
  "int_max_str_digits = 4300"

definition is_space :: "char \<Rightarrow> bool" where
  "is_space c =
     (let n = (of_char c :: nat)
      in (9 \<le> n \<and> n \<le> 13) \<or> n = 32 \<or> n = 133 \<or> n = 160)"

definition is_digit :: "char \<Rightarrow> bool" where
  "is_digit c = (let n = (of_char c :: nat) in 48 \<le> n \<and> n \<le> 57)"

definition digit_val :: "char \<Rightarrow> int" where
  "digit_val c = int (of_char c) - 48"

definition is_digit_or_us :: "char \<Rightarrow> bool" where
  "is_digit_or_us c = (is_digit c \<or> c = CHR ''_'')"

fun double_us :: "string \<Rightarrow> bool" where
  "double_us (a # b # cs) = ((a = CHR ''_'' \<and> b = CHR ''_'') \<or> double_us (b # cs))"
| "double_us _ = False"

definition digits_value :: "string \<Rightarrow> int" where
  "digits_value ds = foldl (\<lambda>a c. 10 * a + digit_val c) 0 ds"

definition py_int :: "string \<Rightarrow> int option" where
  "py_int s =
     (let t = dropWhile is_space s;
          sgn_rest = (case t of
                        [] \<Rightarrow> (1, [])
                      | c # r \<Rightarrow> if c = CHR ''+'' then (1, r)
                                 else if c = CHR ''-'' then (- 1, r)
                                 else (1, t));
          body = takeWhile is_digit_or_us (snd sgn_rest);
          trail = dropWhile is_digit_or_us (snd sgn_rest)
      in if body = [] \<or> hd body = CHR ''_'' \<or> last body = CHR ''_'' \<or> double_us body
            \<or> \<not> list_all is_space trail
            \<or> int_max_str_digits < length (filter is_digit body)
         then None
         else Some (fst sgn_rest * digits_value (filter is_digit body)))"

definition lower_char :: "char \<Rightarrow> char" where
  "lower_char c =
     (let n = (of_char c :: nat)
      in if (65 \<le> n \<and> n \<le> 90) \<or> (192 \<le> n \<and> n \<le> 222 \<and> n \<noteq> 215)
         then char_of (n + 32) else c)"

definition py_lower :: "string \<Rightarrow> string" where
  "py_lower s = map lower_char s"

section \<open>The schema\<close>

record ServerConfig =
  name :: pyval
  version :: pyval
  host :: pyval
  port :: pyval
  log_level :: pyval
  debug :: pyval

record CacheConfig =
  database_path :: pyval
  default_ttl :: pyval
  max_size_mb :: pyval
  cleanup_interval :: pyval
  enable_compression :: pyval

record APIConfig =
  base_url :: pyval
  rate_limit :: pyval
  timeout :: pyval
  retry_attempts :: pyval
  backoff_factor :: pyval

record APIsConfig =
  open_library :: APIConfig
  wikipedia :: APIConfig
  dictionary :: APIConfig
  arxiv :: APIConfig

record ContentFilters =
  enable_age_appropriate :: pyval
  enable_curriculum_alignment :: pyval
  min_educational_relevance :: pyval

record EducationConfig =
  grade_levels :: pyval
  curriculum_standards :: pyval
  subjects :: pyval
  content_filters :: ContentFilters

record LoggingConfig =
  level :: pyval
  format :: pyval
  file_path :: pyval
  max_file_size_mb :: pyval
  backup_count :: pyval

record MonitoringConfig =
  enable_metrics :: pyval
  metrics_port :: pyval
  health_check_interval :: pyval

record Config =
  server :: ServerConfig
  cache :: CacheConfig
  apis :: APIsConfig
  education :: EducationConfig
  logging :: LoggingConfig
  monitoring :: MonitoringConfig

subsection \<open>Declared defaults\<close>

text \<open>The default of every field, as the dataclass declarations give it.\<close>

definition ServerConfig_default :: ServerConfig where
  "ServerConfig_default =
     \<lparr>name = PStr ''openedu-mcp-server'', version = PStr ''1.0.0'',
      host = PStr ''localhost'', port = PInt 8000, log_level = PStr ''INFO'',
      debug = PBool False\<rparr>"

definition CacheConfig_default :: CacheConfig where
  "CacheConfig_default =
     \<lparr>database_path = PStr ''~/.openedu-mcp/cache.db'', default_ttl = PInt 3600,
      max_size_mb = PInt 100, cleanup_interval = PInt 3600,
      enable_compression = PBool True\<rparr>"

definition APIsConfig_default :: APIsConfig where
  "APIsConfig_default =
     \<lparr>open_library =
        \<lparr>base_url = PStr ''https://openlibrary.org'', rate_limit = PInt 100,
         timeout = PInt 30, retry_attempts = PInt 3, backoff_factor = PFloat 2\<rparr>,
      wikipedia =
        \<lparr>base_url = PStr ''https://en.wikipedia.org/api/rest_v1'', rate_limit = PInt 200,
         timeout = PInt 30, retry_attempts = PInt 2, backoff_factor = PFloat 2\<rparr>,
      dictionary =
        \<lparr>base_url = PStr ''https://api.dictionaryapi.dev/api/v2'', rate_limit = PInt 450,
         timeout = PInt 15, retry_attempts = PInt 3, backoff_factor = PFloat 2\<rparr>,
      arxiv =
        \<lparr>base_url = PStr ''http://export.arxiv.org/api'', rate_limit = PInt 3,
         timeout = PInt 60, retry_attempts = PInt 3, backoff_factor = PFloat 2\<rparr>\<rparr>"

definition ContentFilters_default :: ContentFilters where
  "ContentFilters_default =
     \<lparr>enable_age_appropriate = PBool True, enable_curriculum_alignment = PBool True,
      min_educational_relevance = PFloat (7 / 10)\<rparr>"

definition grade_levels_seed :: pyval where
  "grade_levels_seed =
     PList [PStr ''K-2'', PStr ''3-5'', PStr ''6-8'', PStr ''9-12'', PStr ''College'']"

definition curriculum_standards_seed :: pyval where
  "curriculum_standards_seed =
     PList [PStr ''Common Core'', PStr ''NGSS'', PStr ''State Standards'']"

definition subjects_seed :: pyval where
  "subjects_seed =
     PList [PStr ''Mathematics'', PStr ''Science'', PStr ''English Language Arts'',
            PStr ''Social Studies'', PStr ''Arts'', PStr ''Physical Education'',
            PStr ''Technology'']"

definition EducationConfig_default :: EducationConfig where
  "EducationConfig_default =
     \<lparr>grade_levels = grade_levels_seed, curriculum_standards = curriculum_standards_seed,
      subjects = subjects_seed, content_filters = ContentFilters_default\<rparr>"

definition LoggingConfig_default :: LoggingConfig where
  "LoggingConfig_default =
     \<lparr>level = PStr ''INFO'', format = PStr ''json'',
      file_path = PStr ''~/.openedu-mcp/logs/server.log'', max_file_size_mb = PInt 10,
      backup_count = PInt 5\<rparr>"

definition MonitoringConfig_default :: MonitoringConfig where
  "MonitoringConfig_default =
     \<lparr>enable_metrics = PBool True, metrics_port = PInt 9090,
      health_check_interval = PInt 60\<rparr>"

text \<open>\<^verbatim>\<open>Config()\<close>: every section built by its default factory.\<close>

definition Config_default :: Config where
  "Config_default =
     \<lparr>server = ServerConfig_default, cache = CacheConfig_default,
      apis = APIsConfig_default, education = EducationConfig_default,
      logging = LoggingConfig_default, monitoring = MonitoringConfig_default\<rparr>"

subsection \<open>Dataclass constructors called with keyword arguments\<close>

text \<open>
  The generated \<^verbatim>\<open>__init__\<close> of a dataclass takes its fields as keywords. A
  keyword that is not a field is a TypeError, and so is a field without a
  default that is not passed. The values are stored as they come: no type is
  checked.
\<close>

definition known_keys :: "string list \<Rightarrow> pydict \<Rightarrow> bool" where
  "known_keys allowed kw = list_all (\<lambda>k. List.member allowed k) (map fst kw)"

definition dict_get :: "pydict \<Rightarrow> string \<Rightarrow> pyval \<Rightarrow> pyval" where
  "dict_get d key dflt = (case map_of d key of Some v \<Rightarrow> v | None \<Rightarrow> dflt)"

definition server_fields :: "string list" where
  "server_fields = [''name'', ''version'', ''host'', ''port'', ''log_level'', ''debug'']"

definition ServerConfig_init :: "pydict \<Rightarrow> error + ServerConfig" where
  "ServerConfig_init kw =
     (if known_keys server_fields kw
      then Inr \<lparr>name = dict_get kw ''name'' (name ServerConfig_default),
                version = dict_get kw ''version'' (version ServerConfig_default),
                host = dict_get kw ''host'' (host ServerConfig_default),
                port = dict_get kw ''port'' (port ServerConfig_default),
                log_level = dict_get kw ''log_level'' (log_level ServerConfig_default),
                debug = dict_get kw ''debug'' (debug ServerConfig_default)\<rparr>
      else Inl TypeError)"

definition cache_fields :: "string list" where
  "cache_fields = [''database_path'', ''default_ttl'', ''max_size_mb'', ''cleanup_interval'',
                   ''enable_compression'']"

definition CacheConfig_init :: "pydict \<Rightarrow> error + CacheConfig" where
  "CacheConfig_init kw =
     (if known_keys cache_fields kw
      then Inr \<lparr>database_path = dict_get kw ''database_path'' (database_path CacheConfig_default),
                default_ttl = dict_get kw ''default_ttl'' (default_ttl CacheConfig_default),
                max_size_mb = dict_get kw ''max_size_mb'' (max_size_mb CacheConfig_default),
                cleanup_interval =
                  dict_get kw ''cleanup_interval'' (cleanup_interval CacheConfig_default),
                enable_compression =
                  dict_get kw ''enable_compression'' (enable_compression CacheConfig_default)\<rparr>
      else Inl TypeError)"

definition api_fields :: "string list" where
  "api_fields = [''base_url'', ''rate_limit'', ''timeout'', ''retry_attempts'',
                 ''backoff_factor'']"

text \<open>
  \<^verbatim>\<open>APIConfig\<close> declares \<^verbatim>\<open>base_url\<close>, \<^verbatim>\<open>rate_limit\<close> and \<^verbatim>\<open>timeout\<close> without a
  default: the constructor requires them.
\<close>

definition APIConfig_init :: "pydict \<Rightarrow> error + APIConfig" where
  "APIConfig_init kw =
     (case (map_of kw ''base_url'', map_of kw ''rate_limit'', map_of kw ''timeout'') of
        (Some b, Some r, Some t) \<Rightarrow>
          if known_keys api_fields kw
          then Inr \<lparr>base_url = b, rate_limit = r, timeout = t,
                    retry_attempts = dict_get kw ''retry_attempts'' (PInt 3),
                    backoff_factor = dict_get kw ''backoff_factor'' (PFloat 2)\<rparr>
          else Inl TypeError
      | _ \<Rightarrow> Inl TypeError)"

definition filter_fields :: "string list" where
  "filter_fields = [''enable_age_appropriate'', ''enable_curriculum_alignment'',
                    ''min_educational_relevance'']"

definition ContentFilters_init :: "pydict \<Rightarrow> error + ContentFilters" where
  "ContentFilters_init kw =
     (if known_keys filter_fields kw
      then Inr \<lparr>enable_age_appropriate =
                  dict_get kw ''enable_age_appropriate''
                    (enable_age_appropriate ContentFilters_default),
                enable_curriculum_alignment =
                  dict_get kw ''enable_curriculum_alignment''
                    (enable_curriculum_alignment ContentFilters_default),
                min_educational_relevance =
                  dict_get kw ''min_educational_relevance''
                    (min_educational_relevance ContentFilters_default)\<rparr>
      else Inl TypeError)"

definition logging_fields :: "string list" where
  "logging_fields = [''level'', ''format'', ''file_path'', ''max_file_size_mb'',
                     ''backup_count'']"

definition LoggingConfig_init :: "pydict \<Rightarrow> error + LoggingConfig" where
  "LoggingConfig_init kw =
     (if known_keys logging_fields kw
      then Inr \<lparr>level = dict_get kw ''level'' (level LoggingConfig_default),
                format = dict_get kw ''format'' (format LoggingConfig_default),
                file_path = dict_get kw ''file_path'' (file_path LoggingConfig_default),
                max_file_size_mb =
                  dict_get kw ''max_file_size_mb'' (max_file_size_mb LoggingConfig_default),
                backup_count = dict_get kw ''backup_count'' (backup_count LoggingConfig_default)\<rparr>
      else Inl TypeError)"

definition monitoring_fields :: "string list" where
  "monitoring_fields = [''enable_metrics'', ''metrics_port'', ''health_check_interval'']"

definition MonitoringConfig_init :: "pydict \<Rightarrow> error + MonitoringConfig" where
  "MonitoringConfig_init kw =
     (if known_keys monitoring_fields kw
      then Inr \<lparr>enable_metrics = dict_get kw ''enable_metrics'' (enable_metrics MonitoringConfig_default),
                metrics_port = dict_get kw ''metrics_port'' (metrics_port MonitoringConfig_default),
                health_check_interval =
                  dict_get kw ''health_check_interval''
                    (health_check_interval MonitoringConfig_default)\<rparr>
      else Inl TypeError)"

section \<open>\<^verbatim>\<open>Config.from_dict\<close> and \<^verbatim>\<open>Config.to_dict\<close>\<close>

text \<open>
  \<^verbatim>\<open>Cls(**data.get(section, {}))\<close>: read the section, spread it, construct.
\<close>

definition section_kw :: "pydict \<Rightarrow> string \<Rightarrow> error + pydict" where
  "section_kw data sec = kwargs (dict_get data sec (PDict []))"

text \<open>
  \<^verbatim>\<open>Cls(**data.get(section, {}).get(sub, {}))\<close>: the inner \<^verbatim>\<open>.get\<close> raises
  AttributeError when the section is not a dict.
\<close>

definition subsection_kw :: "pydict \<Rightarrow> string \<Rightarrow> string \<Rightarrow> error + pydict" where
  "subsection_kw data sec sub =
     bind_err (py_get (dict_get data sec (PDict [])) sub (PDict [])) kwargs"

text \<open>
  The arguments of the constructor call are evaluated in the order they are
  written; the first exception ends the call.
\<close>

definition from_dict :: "pydict \<Rightarrow> error + Config" where
  "from_dict data =
     bind_err (bind_err (section_kw data ''server'') ServerConfig_init) (\<lambda>srv.
     bind_err (bind_err (section_kw data ''cache'') CacheConfig_init) (\<lambda>cch.
     bind_err (bind_err (subsection_kw data ''apis'' ''open_library'') APIConfig_init) (\<lambda>ol.
     bind_err (bind_err (subsection_kw data ''apis'' ''wikipedia'') APIConfig_init) (\<lambda>wp.
     bind_err (bind_err (subsection_kw data ''apis'' ''dictionary'') APIConfig_init) (\<lambda>dc.
     bind_err (bind_err (subsection_kw data ''apis'' ''arxiv'') APIConfig_init) (\<lambda>ax.
     bind_err (py_get (dict_get data ''education'' (PDict [])) ''grade_levels'' (PList [])) (\<lambda>gl.
     bind_err (py_get (dict_get data ''education'' (PDict [])) ''curriculum_standards'' (PList [])) (\<lambda>cs.
     bind_err (py_get (dict_get data ''education'' (PDict [])) ''subjects'' (PList [])) (\<lambda>sj.
     bind_err (bind_err (subsection_kw data ''education'' ''content_filters'') ContentFilters_init) (\<lambda>cf.
     bind_err (bind_err (section_kw data ''logging'') LoggingConfig_init) (\<lambda>lg.
     bind_err (bind_err (section_kw data ''monitoring'') MonitoringConfig_init) (\<lambda>mn.
       Inr \<lparr>server = srv, cache = cch,
            apis = \<lparr>open_library = ol, wikipedia = wp, dictionary = dc, arxiv = ax\<rparr>,
            education = \<lparr>grade_levels = gl, curriculum_standards = cs, subjects = sj,
                         content_filters = cf\<rparr>,
            logging = lg, monitoring = mn\<rparr>))))))))))))"

text \<open>\<^verbatim>\<open>obj.__dict__\<close> of each dataclass instance: its fields in declaration order.\<close>

definition ServerConfig_dict :: "ServerConfig \<Rightarrow> pyval" where
  "ServerConfig_dict s =
     PDict [(''name'', name s), (''version'', version s), (''host'', host s),
            (''port'', port s), (''log_level'', log_level s), (''debug'', debug s)]"

definition CacheConfig_dict :: "CacheConfig \<Rightarrow> pyval" where
  "CacheConfig_dict c =
     PDict [(''database_path'', database_path c), (''default_ttl'', default_ttl c),
            (''max_size_mb'', max_size_mb c), (''cleanup_interval'', cleanup_interval c),
            (''enable_compression'', enable_compression c)]"

definition APIConfig_dict :: "APIConfig \<Rightarrow> pyval" where
  "APIConfig_dict a =
     PDict [(''base_url'', base_url a), (''rate_limit'', rate_limit a),
            (''timeout'', timeout a), (''retry_attempts'', retry_attempts a),
            (''backoff_factor'', backoff_factor a)]"

definition ContentFilters_dict :: "ContentFilters \<Rightarrow> pyval" where
  "ContentFilters_dict f =
     PDict [(''enable_age_appropriate'', enable_age_appropriate f),
            (''enable_curriculum_alignment'', enable_curriculum_alignment f),
            (''min_educational_relevance'', min_educational_relevance f)]"

definition LoggingConfig_dict :: "LoggingConfig \<Rightarrow> pyval" where
  "LoggingConfig_dict l =
     PDict [(''level'', level l), (''format'', format l), (''file_path'', file_path l),
            (''max_file_size_mb'', max_file_size_mb l), (''backup_count'', backup_count l)]"

definition MonitoringConfig_dict :: "MonitoringConfig \<Rightarrow> pyval" where
  "MonitoringConfig_dict m =
     PDict [(''enable_metrics'', enable_metrics m), (''metrics_port'', metrics_port m),
            (''health_check_interval'', health_check_interval m)]"

definition to_dict :: "Config \<Rightarrow> pydict" where
  "to_dict c =
     [(''server'', ServerConfig_dict (server c)),
      (''cache'', CacheConfig_dict (cache c)),
      (''apis'', PDict [(''open_library'', APIConfig_dict (open_library (apis c))),
                        (''wikipedia'', APIConfig_dict (wikipedia (apis c))),
                        (''dictionary'', APIConfig_dict (dictionary (apis c))),
                        (''arxiv'', APIConfig_dict (arxiv (apis c)))]),
      (''education'', PDict [(''grade_levels'', grade_levels (education c)),
                             (''curriculum_standards'', curriculum_standards (education c)),
                             (''subjects'', subjects (education c)),
                             (''content_filters'', ContentFilters_dict (content_filters (education c)))]),
      (''logging'', LoggingConfig_dict (logging c)),
      (''monitoring'', MonitoringConfig_dict (monitoring c))]"

section \<open>The deep merge\<close>

text \<open>
  \<^verbatim>\<open>_merge_configs(base, override)\<close>. The first argument of the function below is
  the local \<^verbatim>\<open>result\<close>, which starts as a copy of \<^verbatim>\<open>base\<close>; the second is what
  is left of \<^verbatim>\<open>override.items()\<close>. An assignment \<^verbatim>\<open>result[key] = v\<close> keeps the
  position of a key that is there and appends a new one.
\<close>

fun merge_configs :: "pydict \<Rightarrow> pydict \<Rightarrow> pydict" where
  "merge_configs result [] = result"
| "merge_configs result ((key, val) # items) =
     merge_configs
       (case (map_of result key, val) of
          (Some (PDict b), PDict ov) \<Rightarrow> AList.update key (PDict (merge_configs b ov)) result
        | _ \<Rightarrow> AList.update key val result)
       items"

text \<open>
  The call in \<^verbatim>\<open>load_config\<close>, where \<^verbatim>\<open>base\<close> is whatever the YAML document
  held. A list has \<^verbatim>\<open>copy\<close> but takes no string index, so the first override
  raises TypeError; the scalars have no \<^verbatim>\<open>copy\<close>.
\<close>

definition merge_loaded :: "pyval \<Rightarrow> pydict \<Rightarrow> error + pyval" where
  "merge_loaded base override =
     (case base of
        PDict b \<Rightarrow> Inr (PDict (merge_configs b override))
      | PList xs \<Rightarrow> if override = [] then Inr (PList xs) else Inl TypeError
      | _ \<Rightarrow> Inl AttributeError)"

section \<open>Environment overrides\<close>

text \<open>
  \<^verbatim>\<open>overrides.setdefault(s1, {})...setdefault(sn, {})[key] = v\<close> on the dict built
  so far. Every section the function creates is a dict, so the fallback to
  the empty dict is only taken for a section that is not there yet.
\<close>

fun set_path :: "string list \<Rightarrow> string \<Rightarrow> pyval \<Rightarrow> pydict \<Rightarrow> pydict" where
  "set_path [] key v d = AList.update key v d"
| "set_path (s # ss) key v d =
     AList.update s
       (PDict (set_path ss key v (case map_of d s of Some (PDict d') \<Rightarrow> d' | _ \<Rightarrow> []))) d"

text \<open>
  One \<^verbatim>\<open>if os.getenv(NAME): ...\<close> statement per coercion. The test is true when
  the variable is set and its value is not the empty string.
\<close>

definition env_str ::
  "(string \<Rightarrow> string option) \<Rightarrow> string \<Rightarrow> string list \<Rightarrow> string \<Rightarrow> pydict \<Rightarrow> error + pydict" where
  "env_str env var path key ov =
     (case env var of
        None \<Rightarrow> Inr ov
      | Some s \<Rightarrow> if s \<noteq> [] then Inr (set_path path key (PStr s) ov) else Inr ov)"

definition env_int ::
  "(string \<Rightarrow> string option) \<Rightarrow> string \<Rightarrow> string list \<Rightarrow> string \<Rightarrow> pydict \<Rightarrow> error + pydict" where
  "env_int env var path key ov =
     (case env var of
        None \<Rightarrow> Inr ov
      | Some s \<Rightarrow>
          if s \<noteq> []
          then (case py_int s of
                  None \<Rightarrow> Inl ValueError
                | Some n \<Rightarrow> Inr (set_path path key (PInt n) ov))
          else Inr ov)"

definition env_bool ::
  "(string \<Rightarrow> string option) \<Rightarrow> string \<Rightarrow> string list \<Rightarrow> string \<Rightarrow> pydict \<Rightarrow> error + pydict" where
  "env_bool env var path key ov =
     (case env var of
        None \<Rightarrow> Inr ov
      | Some s \<Rightarrow>
          if s \<noteq> [] then Inr (set_path path key (PBool (py_lower s = ''true'')) ov)
          else Inr ov)"

definition get_env_overrides :: "(string \<Rightarrow> string option) \<Rightarrow> error + pydict" where
  "get_env_overrides env =
     bind_err (env_str env ''OPENEDU_MCP_HOST'' [''server''] ''host'' []) (\<lambda>ov.
     bind_err (env_int env ''OPENEDU_MCP_PORT'' [''server''] ''port'' ov) (\<lambda>ov.
     bind_err (env_str env ''OPENEDU_MCP_LOG_LEVEL'' [''server''] ''log_level'' ov) (\<lambda>ov.
     bind_err (env_bool env ''OPENEDU_MCP_DEBUG'' [''server''] ''debug'' ov) (\<lambda>ov.
     bind_err (env_str env ''OPENEDU_MCP_CACHE_PATH'' [''cache''] ''database_path'' ov) (\<lambda>ov.
     bind_err (env_int env ''OPENEDU_MCP_CACHE_TTL'' [''cache''] ''default_ttl'' ov) (\<lambda>ov.
     bind_err (env_int env ''OPENEDU_MCP_CACHE_MAX_SIZE_MB'' [''cache''] ''max_size_mb'' ov) (\<lambda>ov.
     bind_err (env_int env ''OPENEDU_MCP_OPEN_LIBRARY_RATE_LIMIT''
                 [''apis'', ''open_library''] ''rate_limit'' ov) (\<lambda>ov.
     env_int env ''OPENEDU_MCP_WIKIPEDIA_RATE_LIMIT''
                 [''apis'', ''wikipedia''] ''rate_limit'' ov))))))))"

text \<open>The nine variables that \<^verbatim>\<open>_get_env_overrides\<close> reads.\<close>

definition override_vars :: "string list" where
  "override_vars =
     [''OPENEDU_MCP_HOST'', ''OPENEDU_MCP_PORT'', ''OPENEDU_MCP_LOG_LEVEL'',
      ''OPENEDU_MCP_DEBUG'', ''OPENEDU_MCP_CACHE_PATH'', ''OPENEDU_MCP_CACHE_TTL'',
      ''OPENEDU_MCP_CACHE_MAX_SIZE_MB'', ''OPENEDU_MCP_OPEN_LIBRARY_RATE_LIMIT'',
      ''OPENEDU_MCP_WIKIPEDIA_RATE_LIMIT'']"

section \<open>\<^verbatim>\<open>load_config\<close>\<close>

text \<open>The candidate loop: the first path that exists, or \<^verbatim>\<open>None\<close>.\<close>

fun first_existing :: "world \<Rightarrow> string list \<Rightarrow> string option" where
  "first_existing w [] = None"
| "first_existing w (p # ps) = (if path_exists w p then Some p else first_existing w ps)"

definition possible_paths :: "world \<Rightarrow> string list" where
  "possible_paths w =
     [''config/default.yaml'', ''config/development.yaml'',
      (case getenv w ''OPENEDU_MCP_CONFIG_PATH'' of
         None \<Rightarrow> ''config/default.yaml'' | Some p \<Rightarrow> p)]"

text \<open>\<^verbatim>\<open>if config_path:\<close> takes the explicit path when it is a non-empty string.\<close>

definition resolve_file :: "string option \<Rightarrow> world \<Rightarrow> string option" where
  "resolve_file config_path w =
     (case config_path of
        None \<Rightarrow> first_existing w (possible_paths w)
      | Some p \<Rightarrow> if p \<noteq> [] then Some p else first_existing w (possible_paths w))"

text \<open>
  \<^verbatim>\<open>config_data\<close> after the file step: \<^verbatim>\<open>yaml.safe_load(f) or {}\<close> when the
  resolved file exists, the empty dict otherwise.
\<close>

definition load_file :: "string option \<Rightarrow> world \<Rightarrow> error + pyval" where
  "load_file config_path w =
     (case resolve_file config_path w of
        None \<Rightarrow> Inr (PDict [])
      | Some f \<Rightarrow>
          if path_exists w f
          then bind_err (read_yaml w f) (\<lambda>v. Inr (if py_truthy v then v else PDict []))
          else Inr (PDict []))"

definition load_config :: "string option \<Rightarrow> world \<Rightarrow> error + Config" where
  "load_config config_path w =
     bind_err (load_file config_path w) (\<lambda>config_data.
     bind_err (get_env_overrides (getenv w)) (\<lambda>env_overrides.
     bind_err (merge_loaded config_data env_overrides) (\<lambda>merged.
       case merged of PDict d \<Rightarrow> from_dict d | _ \<Rightarrow> Inl AttributeError)))"

section \<open>The merge on a store of dicts\<close>

text \<open>
  Whether \<^verbatim>\<open>_merge_configs\<close> changes its arguments cannot be read off a function
  on values, so here the dicts are objects in a store. A store is the list of
  all dicts allocated so far, a dict is referred to by its position, and a
  value inside a dict is a scalar, a list, or a reference to a dict. Lists are
  never read or written by the merge and are carried as values.
\<close>

type_synonym addr = nat

datatype hval =
    HNone
  | HBool bool
  | HInt int
  | HFloat rat
  | HStr string
  | HList "hval list"
  | HRef addr

type_synonym hdict = "(string \<times> hval) list"

type_synonym store = "hdict list"

text \<open>
  \<^verbatim>\<open>key in result and isinstance(result[key], dict) and isinstance(value, dict)\<close>:
  both sides are references.
\<close>

fun both_dicts :: "hval option \<Rightarrow> hval \<Rightarrow> (addr \<times> addr) option" where
  "both_dicts (Some (HRef b)) (HRef ov) = Some (b, ov)"
| "both_dicts _ _ = None"

text \<open>\<^verbatim>\<open>d[key] = v\<close> on the dict at address \<open>a\<close>.\<close>

definition set_item :: "store \<Rightarrow> addr \<Rightarrow> string \<Rightarrow> hval \<Rightarrow> store" where
  "set_item s a key v = s[a := AList.update key v (s ! a)]"

text \<open>
  \<^verbatim>\<open>_merge_configs\<close> and its loop. \<^verbatim>\<open>base.copy()\<close> allocates the result with the
  entries of \<^verbatim>\<open>base\<close>; the loop reads the items of \<^verbatim>\<open>override\<close> from the store at
  every step, by index; a nested call runs on the store as it then is. The
  first argument bounds the number of calls and loop steps still allowed:
  \<open>None\<close> means that the bound was reached or that an address is not in
  the store.
\<close>

fun merge_st :: "nat \<Rightarrow> store \<Rightarrow> addr \<Rightarrow> addr \<Rightarrow> (store \<times> addr) option"
  and merge_loop :: "nat \<Rightarrow> store \<Rightarrow> addr \<Rightarrow> addr \<Rightarrow> nat \<Rightarrow> (store \<times> addr) option" where
  "merge_st 0 s base override = None"
| "merge_st (Suc n) s base override =
     (if base < length s \<and> override < length s
      then merge_loop n (s @ [s ! base]) (length s) override 0
      else None)"
| "merge_loop 0 s result override i = None"
| "merge_loop (Suc n) s result override i =
     (if i < length (s ! override)
      then let key = fst ((s ! override) ! i); val = snd ((s ! override) ! i)
           in (case both_dicts (map_of (s ! result) key) val of
                 Some (b, ov) \<Rightarrow>
                   (case merge_st n s b ov of
                      None \<Rightarrow> None
                    | Some (s', r) \<Rightarrow> merge_loop n (set_item s' result key (HRef r)) result override (Suc i))
               | None \<Rightarrow> merge_loop n (set_item s result key val) result override (Suc i))
      else Some (s, result))"

text \<open>What a call, and what the loop, may change in the store.\<close>

definition frame_st :: "nat \<Rightarrow> bool" where
  "frame_st n = (\<forall>s b ov s' r. merge_st n s b ov = Some (s', r) \<longrightarrow>
      length s \<le> r \<and> r < length s' \<and> length s \<le> length s' \<and> (\<forall>a < length s. s' ! a = s ! a))"

definition frame_loop :: "nat \<Rightarrow> bool" where
  "frame_loop n = (\<forall>s r ov i s' r'. merge_loop n s r ov i = Some (s', r') \<longrightarrow> r < length s \<longrightarrow>
      r' = r \<and> length s \<le> length s' \<and> (\<forall>a < length s. a \<noteq> r \<longrightarrow> s' ! a = s ! a))"

subsection \<open>The value a store holds at an address\<close>

text \<open>
  \<open>abs_val n ok s v\<close> reads the value \<open>v\<close> of store \<open>s\<close> back as a plain value,
  following references through at most \<open>n\<close> levels and only to the addresses
  that \<open>ok\<close> admits. It is \<open>None\<close> when a reference leaves the store or \<open>ok\<close>,
  or when \<open>n\<close> levels are not enough, as for a dict that contains itself.
\<close>

fun abs_val :: "nat \<Rightarrow> (addr \<Rightarrow> bool) \<Rightarrow> store \<Rightarrow> hval \<Rightarrow> pyval option" where
  "abs_val 0 ok s v = None"
| "abs_val (Suc n) ok s HNone = Some PNone"
| "abs_val (Suc n) ok s (HBool b) = Some (PBool b)"
| "abs_val (Suc n) ok s (HInt i) = Some (PInt i)"
| "abs_val (Suc n) ok s (HFloat r) = Some (PFloat r)"
| "abs_val (Suc n) ok s (HStr t) = Some (PStr t)"
| "abs_val (Suc n) ok s (HList xs) = map_option PList (those (map (abs_val n ok s) xs))"
| "abs_val (Suc n) ok s (HRef a) =
     (if a < length s \<and> ok a
      then map_option PDict
             (those (map (\<lambda>kv. map_option (Pair (fst kv)) (abs_val n ok s (snd kv))) (s ! a)))
      else None)"

text \<open>The entries of one dict, read back the same way.\<close>

definition abs_items :: "nat \<Rightarrow> (addr \<Rightarrow> bool) \<Rightarrow> store \<Rightarrow> hdict \<Rightarrow> pydict option" where
  "abs_items n ok s d = those (map (\<lambda>kv. map_option (Pair (fst kv)) (abs_val n ok s (snd kv))) d)"

text \<open>\<open>v\<close> stands for the value \<open>p\<close> in store \<open>s\<close>.\<close>

definition denotes :: "store \<Rightarrow> hval \<Rightarrow> pyval \<Rightarrow> bool" where
  "denotes s v p = (\<exists>m. abs_val m (\<lambda>a. True) s v = Some p)"

text \<open>
  More fuel never changes a result, and the loop on the store computes what
  the merge on values computes: the statements that are proved by induction
  on the fuel and on the recursion of \<open>merge_configs\<close>.
\<close>

definition mono_st :: "nat \<Rightarrow> bool" where
  "mono_st n = (\<forall>s b ov x m. merge_st n s b ov = Some x \<longrightarrow> n \<le> m \<longrightarrow> merge_st m s b ov = Some x)"

definition mono_loop :: "nat \<Rightarrow> bool" where
  "mono_loop n = (\<forall>s r ov i x m. merge_loop n s r ov i = Some x \<longrightarrow> n \<le> m \<longrightarrow>
      merge_loop m s r ov i = Some x)"

definition loop_refines :: "pydict \<Rightarrow> pydict \<Rightarrow> bool" where
  "loop_refines R items =
     (\<forall>s r ov i m ok.
        r < length s \<longrightarrow> ov < length s \<longrightarrow> ov \<noteq> r \<longrightarrow> \<not> ok r \<longrightarrow> (\<forall>a. length s \<le> a \<longrightarrow> ok a) \<longrightarrow>
        abs_items m ok s (s ! r) = Some R \<longrightarrow>
        abs_items m ok s (drop i (s ! ov)) = Some items \<longrightarrow>
        (\<exists>n s' m'. merge_loop n s r ov i = Some (s', r) \<and>
                    abs_items m' ok s' (s' ! r) = Some (merge_configs R items)))"

section \<open>Reading a leaf of a nested mapping\<close>

text \<open>
  \<open>lookup_path d [s1, ..., sn] key\<close> is \<^verbatim>\<open>d[s1]...[sn][key]\<close> when every section on
  the way is a dict that has the next key, and \<open>None\<close> otherwise.
\<close>

fun lookup_path :: "pydict \<Rightarrow> string list \<Rightarrow> string \<Rightarrow> pyval option" where
  "lookup_path d [] key = map_of d key"
| "lookup_path d (s # ss) key =
     (case map_of d s of Some (PDict d') \<Rightarrow> lookup_path d' ss key | _ \<Rightarrow> None)"

text \<open>Two key paths part ways before either of them ends.\<close>

fun diverge :: "string list \<Rightarrow> string list \<Rightarrow> bool" where
  "diverge (a # as) (b # bs) = (a \<noteq> b \<or> diverge as bs)"
| "diverge _ _ = False"

text \<open>
  The statements of \<^verbatim>\<open>_get_env_overrides\<close> as a table, in source order:
  variable, coercion, sections, key.
\<close>

datatype coercion = AsStr | AsInt | AsBool

type_synonym override_row = "string \<times> coercion \<times> string list \<times> string"

definition override_table :: "override_row list" where
  "override_table =
     [(''OPENEDU_MCP_HOST'', AsStr, [''server''], ''host''),
      (''OPENEDU_MCP_PORT'', AsInt, [''server''], ''port''),
      (''OPENEDU_MCP_LOG_LEVEL'', AsStr, [''server''], ''log_level''),
      (''OPENEDU_MCP_DEBUG'', AsBool, [''server''], ''debug''),
      (''OPENEDU_MCP_CACHE_PATH'', AsStr, [''cache''], ''database_path''),
      (''OPENEDU_MCP_CACHE_TTL'', AsInt, [''cache''], ''default_ttl''),
      (''OPENEDU_MCP_CACHE_MAX_SIZE_MB'', AsInt, [''cache''], ''max_size_mb''),
      (''OPENEDU_MCP_OPEN_LIBRARY_RATE_LIMIT'', AsInt, [''apis'', ''open_library''], ''rate_limit''),
      (''OPENEDU_MCP_WIKIPEDIA_RATE_LIMIT'', AsInt, [''apis'', ''wikipedia''], ''rate_limit'')]"

fun env_step :: "(string \<Rightarrow> string option) \<Rightarrow> override_row \<Rightarrow> pydict \<Rightarrow> error + pydict" where
  "env_step env (var, AsStr, path, key) ov = env_str env var path key ov"
| "env_step env (var, AsInt, path, key) ov = env_int env var path key ov"
| "env_step env (var, AsBool, path, key) ov = env_bool env var path key ov"

fun run_steps :: "(string \<Rightarrow> string option) \<Rightarrow> override_row list \<Rightarrow> pydict \<Rightarrow> error + pydict" where
  "run_steps env [] ov = Inr ov"
| "run_steps env (r # rs) ov = bind_err (env_step env r ov) (run_steps env rs)"

text \<open>The value a coercion gives for a string, when it gives one.\<close>

fun coerce :: "coercion \<Rightarrow> string \<Rightarrow> pyval option" where
  "coerce AsStr s = Some (PStr s)"
| "coerce AsInt s = map_option PInt (py_int s)"
| "coerce AsBool s = Some (PBool (py_lower s = ''true''))"

text \<open>A dict whose keys are distinct, and so are those of every dict inside it.\<close>

fun wf_val :: "pyval \<Rightarrow> bool" where
  "wf_val (PDict d) = (distinct (map fst d) \<and> (\<forall>kv \<in> set d. wf_val (snd kv)))"
| "wf_val (PList xs) = (\<forall>x \<in> set xs. wf_val x)"
| "wf_val _ = True"

text \<open>The full key path of a row, and a table whose later rows all part from the earlier ones.\<close>

definition leaf_path :: "override_row \<Rightarrow> string list" where
  "leaf_path r = fst (snd (snd r)) @ [snd (snd (snd r))]"

fun later_diverge :: "override_row list \<Rightarrow> bool" where
  "later_diverge [] = True"
| "later_diverge (r # rs) =
     (list_all (\<lambda>r'. diverge (leaf_path r') (leaf_path r)) rs \<and> later_diverge rs)"

fun is_dict :: "pyval \<Rightarrow> bool" where
  "is_dict (PDict d) = True"
| "is_dict _ = False"

text \<open>The five variables whose value goes through \<^verbatim>\<open>int(...)\<close>.\<close>

definition int_vars :: "string list" where
  "int_vars =
     [''OPENEDU_MCP_PORT'', ''OPENEDU_MCP_CACHE_TTL'', ''OPENEDU_MCP_CACHE_MAX_SIZE_MB'',
      ''OPENEDU_MCP_OPEN_LIBRARY_RATE_LIMIT'', ''OPENEDU_MCP_WIKIPEDIA_RATE_LIMIT'']"

text \<open>
  The specification's reading of the boolean coercion: the value is the word
  \<^verbatim>\<open>true\<close>, each letter in either case.
\<close>

fun is_true_literal :: "string \<Rightarrow> bool" where
  "is_true_literal [a, b, c, d] =
     ((a = CHR ''t'' \<or> a = CHR ''T'') \<and> (b = CHR ''r'' \<or> b = CHR ''R'') \<and>
      (c = CHR ''u'' \<or> c = CHR ''U'') \<and> (d = CHR ''e'' \<or> d = CHR ''E''))"
| "is_true_literal _ = False"





section \<open>Concrete inputs\<close>

text \<open>An \<^verbatim>\<open>apis\<close> section that gives every service its three required fields.\<close>

definition example_api_entries :: pydict where
  "example_api_entries =
     [(''open_library'', PDict [(''base_url'', PStr ''https://openlibrary.org''),
                                (''rate_limit'', PInt 100), (''timeout'', PInt 30)]),
      (''wikipedia'', PDict [(''base_url'', PStr ''https://en.wikipedia.org/api/rest_v1''),
                             (''rate_limit'', PInt 200), (''timeout'', PInt 30)]),
      (''dictionary'', PDict [(''base_url'', PStr ''https://api.dictionaryapi.dev/api/v2''),
                              (''rate_limit'', PInt 450), (''timeout'', PInt 15)]),
      (''arxiv'', PDict [(''base_url'', PStr ''http://export.arxiv.org/api''),
                         (''rate_limit'', PInt 3), (''timeout'', PInt 60)])]"

definition example_apis :: pyval where
  "example_apis = PDict example_api_entries"

text \<open>No file anywhere, no variable set.\<close>

definition no_sources :: world where
  "no_sources =
     \<lparr>path_exists = (\<lambda>p. False), read_yaml = (\<lambda>p. Inl OSError), getenv = (\<lambda>v. None)\<rparr>"

text \<open>
  Only \<^verbatim>\<open>config/default.yaml\<close> exists; reading it gives \<open>doc\<close>; the environment
  is \<open>env\<close>.
\<close>

definition world_with :: "error + pyval \<Rightarrow> (string \<Rightarrow> string option) \<Rightarrow> world" where
  "world_with doc env =
     \<lparr>path_exists = (\<lambda>p. p = ''config/default.yaml''),
      read_yaml = (\<lambda>p. if p = ''config/default.yaml'' then doc else Inl OSError),
      getenv = env\<rparr>"

text \<open>An environment with exactly one variable set.\<close>

definition only_var :: "string \<Rightarrow> string \<Rightarrow> string \<Rightarrow> string option" where
  "only_var var s = (\<lambda>v. if v = var then Some s else None)"

text \<open>Two documents with a complete \<^verbatim>\<open>apis\<close> section and one \<^verbatim>\<open>server\<close> setting.\<close>

definition file_port_9000 :: pyval where
  "file_port_9000 = PDict [(''server'', PDict [(''port'', PInt 9000)]), (''apis'', example_apis)]"

definition file_debug_true :: pyval where
  "file_debug_true = PDict [(''server'', PDict [(''debug'', PBool True)]), (''apis'', example_apis)]"

text \<open>A base and an override that meet every case of the merge.\<close>

definition merge_base_example :: pydict where
  "merge_base_example =
     [(''server'', PDict [(''host'', PStr ''a''), (''port'', PInt 9000)]),
      (''education'', PDict [(''subjects'', PList [PStr ''Mathematics'', PStr ''Science''])]),
      (''cache'', PInt 1),
      (''logging'', PDict [(''level'', PStr ''INFO'')])]"

definition merge_override_example :: pydict where
  "merge_override_example =
     [(''server'', PDict [(''port'', PInt 7000)]),
      (''education'', PDict [(''subjects'', PList [PStr ''Art''])]),
      (''cache'', PDict [(''default_ttl'', PInt 5)]),
      (''monitoring'', PBool True)]"



text \<open>A store with a base at address 0 and an override at address 2.\<close>

definition st0 :: store where
  "st0 = [[(''server'', HRef 1), (''x'', HInt 1)], [(''port'', HInt 9000), (''host'', HStr ''a'')],
          [(''server'', HRef 3), (''y'', HList [HInt 2])], [(''port'', HInt 7000)]]"

text \<open>What the two dicts of \<open>st0\<close> stand for, the store after the merge, and the merged value.\<close>

definition st0_base :: pydict where
  "st0_base = [(''server'', PDict [(''port'', PInt 9000), (''host'', PStr ''a'')]), (''x'', PInt 1)]"

definition st0_override :: pydict where
  "st0_override = [(''server'', PDict [(''port'', PInt 7000)]), (''y'', PList [PInt 2])]"

definition st0_after :: store where
  "st0_after = st0 @ [[(''server'', HRef 5), (''x'', HInt 1), (''y'', HList [HInt 2])],
                       [(''port'', HInt 7000), (''host'', HStr ''a'')]]"

definition st0_merged :: pydict where
  "st0_merged = [(''server'', PDict [(''port'', PInt 7000), (''host'', PStr ''a'')]),
                 (''x'', PInt 1), (''y'', PList [PInt 2])]"

text \<open>An environment that sets all nine override variables.\<close>

definition env_all_set :: "string \<Rightarrow> string option" where
  "env_all_set =
     map_of [(''OPENEDU_MCP_HOST'', ''example.org''), (''OPENEDU_MCP_PORT'', ''7000''),
             (''OPENEDU_MCP_LOG_LEVEL'', ''DEBUG''), (''OPENEDU_MCP_DEBUG'', ''True''),
             (''OPENEDU_MCP_CACHE_PATH'', ''/tmp/c.db''), (''OPENEDU_MCP_CACHE_TTL'', ''60''),
             (''OPENEDU_MCP_CACHE_MAX_SIZE_MB'', ''5''),
             (''OPENEDU_MCP_OPEN_LIBRARY_RATE_LIMIT'', ''7''),
             (''OPENEDU_MCP_WIKIPEDIA_RATE_LIMIT'', ''9'')]"


section \<open>Auxiliary facts\<close>

subsection \<open>Merging and key paths\<close>

lemma map_of_merge:
  "distinct (map fst ov) \<Longrightarrow>
   map_of (merge_configs b ov) k =
     (case map_of ov k of
        None \<Rightarrow> map_of b k
      | Some v \<Rightarrow> Some (case (map_of b k, v) of
                          (Some (PDict b'), PDict ov') \<Rightarrow> PDict (merge_configs b' ov')
                        | _ \<Rightarrow> v))"
proof (induction ov arbitrary: b)
  case Nil
  then show ?case by simp
next
  case (Cons kv ov)
  obtain key val where kv: "kv = (key, val)" by (cases kv)
  from Cons.prems kv have d: "distinct (map fst ov)" and nk: "map_of ov key = None"
    by (auto simp: map_of_eq_None_iff)
  show ?case
    unfolding kv merge_configs.simps
    by (subst Cons.IH [OF d]) (auto simp: update_conv' nk split: option.splits pyval.splits)
qed

lemma distinct_merge:
  "distinct (map fst b) \<Longrightarrow> distinct (map fst (merge_configs b ov))"
  by (induction b ov rule: merge_configs.induct)
     (auto simp: distinct_update split: option.splits pyval.splits)

lemma set_update_subset: "set (AList.update k v d) \<subseteq> insert (k, v) (set d)"
  by (induction d) auto

lemma wf_update:
  "wf_val (PDict d) \<Longrightarrow> wf_val v \<Longrightarrow> wf_val (PDict (AList.update k v d))"
  using set_update_subset [of k v d] by (auto simp: distinct_update)

lemma wf_sub:
  "wf_val (PDict d) \<Longrightarrow> map_of d s = Some v \<Longrightarrow> wf_val v"
  by (auto dest!: map_of_SomeD)

lemma wf_set_path:
  "wf_val (PDict d) \<Longrightarrow> wf_val v \<Longrightarrow> wf_val (PDict (set_path p k v d))"
proof (induction p arbitrary: d)
  case Nil
  then show ?case by (simp only: set_path.simps wf_update)
next
  case (Cons s ss)
  have "wf_val (PDict (case map_of d s of Some (PDict d') \<Rightarrow> d' | _ \<Rightarrow> []))"
  proof (cases "map_of d s")
    case None
    then show ?thesis by simp
  next
    case (Some x)
    then have "wf_val x" using wf_sub [OF Cons.prems(1)] by blast
    then show ?thesis using Some by (cases x) simp_all
  qed
  from Cons.IH [OF this Cons.prems(2)] show ?case
    by (simp only: set_path.simps wf_update [OF Cons.prems(1)])
qed

lemma lookup_path_Nil [simp]: "lookup_path [] p k = None"
  by (cases p) auto

lemma lookup_set_path_same:
  "lookup_path (set_path p k v d) p k = Some v"
  by (induction p arbitrary: d) (auto simp: update_conv')

lemma lookup_set_path_other:
  "diverge (p @ [k]) (p' @ [k']) \<Longrightarrow>
   lookup_path (set_path p k v d) p' k' = lookup_path d p' k'"
proof (induction p arbitrary: d p')
  case Nil
  then show ?case by (cases p') (auto simp: update_conv')
next
  case (Cons s ss)
  show ?case
  proof (cases p')
    case Nil
    with Cons.prems show ?thesis by (auto simp: update_conv')
  next
    case (Cons s' ss')
    show ?thesis
    proof (cases "s' = s")
      case True
      with Cons.prems Cons have dv: "diverge (ss @ [k]) (ss' @ [k'])" by simp
      show ?thesis
        using Cons.IH [OF dv] True Cons
        by (auto simp: update_conv' split: option.splits pyval.splits)
    next
      case False
      with Cons show ?thesis by (auto simp: update_conv')
    qed
  qed
qed

lemma merge_lookup_path:
  "wf_val (PDict ov) \<Longrightarrow> lookup_path ov p k = Some v \<Longrightarrow> \<not> is_dict v \<Longrightarrow>
   lookup_path (merge_configs b ov) p k = Some v"
proof (induction p arbitrary: b ov)
  case Nil
  then show ?case
    by (cases v) (auto simp: map_of_merge split: option.splits pyval.splits)
next
  case (Cons s ss)
  from Cons.prems(2) obtain o' where o': "map_of ov s = Some (PDict o')" "lookup_path o' ss k = Some v"
    by (auto split: option.splits pyval.splits)
  have wfo: "wf_val (PDict o')" using wf_sub [OF Cons.prems(1) o'(1)] .
  have d: "distinct (map fst ov)" using Cons.prems(1) by simp
  show ?case
    using Cons.IH [OF wfo o'(2) Cons.prems(3)] o'
    by (auto simp: map_of_merge [OF d] split: option.splits pyval.splits)
qed

lemma bind_err_Inr: "bind_err m Inr = m"
  by (cases m) (simp_all add: bind_err_def)

lemma run_steps_Nil: "run_steps env [] = Inr"
  by (rule ext) simp

lemma run_steps_Cons: "run_steps env (r # rs) = (\<lambda>ov. bind_err (env_step env r ov) (run_steps env rs))"
  by (rule ext) simp

lemma get_env_overrides_steps:
  "get_env_overrides env = run_steps env override_table []"
  by (simp add: get_env_overrides_def override_table_def run_steps_Nil run_steps_Cons bind_err_Inr)

lemma env_step_cases:
  "env_step env (var, co, p, k) ov =
     (case env var of
        None \<Rightarrow> Inr ov
      | Some s \<Rightarrow> if s = [] then Inr ov
                  else (case coerce co s of None \<Rightarrow> Inl ValueError
                        | Some v \<Rightarrow> Inr (set_path p k v ov)))"
  by (cases co) (auto simp: env_str_def env_int_def env_bool_def split: option.splits)

lemma coerce_not_dict: "coerce co s = Some v \<Longrightarrow> \<not> is_dict v \<and> wf_val v"
  by (cases co) auto

lemma run_steps_error:
  "run_steps env tbl ov = Inl e \<Longrightarrow> e = ValueError"
proof (induction tbl arbitrary: ov)
  case Nil
  then show ?case by simp
next
  case (Cons r rs)
  obtain var co p k where r: "r = (var, co, p, k)" by (cases r)
  from Cons show ?case
    by (auto simp: r env_step_cases bind_err_def split: option.splits if_splits)
qed

lemma run_steps_bad_int:
  "(var, co, p, k) \<in> set tbl \<Longrightarrow> env var = Some s \<Longrightarrow> s \<noteq> [] \<Longrightarrow> coerce co s = None \<Longrightarrow>
   run_steps env tbl ov = Inl ValueError"
proof (induction tbl arbitrary: ov)
  case Nil
  then show ?case by simp
next
  case (Cons r rs)
  obtain var' co' p' k' where r: "r = (var', co', p', k')" by (cases r)
  show ?case
  proof (cases "env_step env r ov")
    case (Inl e)
    then have "run_steps env (r # rs) ov = Inl e" by (simp add: bind_err_def)
    with run_steps_error [of env "r # rs" ov e] show ?thesis by simp
  next
    case (Inr ov')
    then have "r \<noteq> (var, co, p, k)"
      using Cons.prems by (auto simp: env_step_cases)
    with Cons.prems have "(var, co, p, k) \<in> set rs" by auto
    from Cons.IH [OF this Cons.prems(2,3,4)] Inr show ?thesis by (simp add: bind_err_def)
  qed
qed

lemma run_steps_wf:
  "run_steps env tbl ov = Inr ov' \<Longrightarrow> wf_val (PDict ov) \<Longrightarrow> wf_val (PDict ov')"
proof (induction tbl arbitrary: ov)
  case Nil
  then show ?case by simp
next
  case (Cons r rs)
  obtain var co p k where r: "r = (var, co, p, k)" by (cases r)
  from Cons.prems(1) obtain ov1 where s1: "env_step env r ov = Inr ov1" and s2: "run_steps env rs ov1 = Inr ov'"
    by (auto simp: bind_err_def split: sum.splits)
  from s1 have "ov1 = ov \<or> (\<exists>s v. coerce co s = Some v \<and> ov1 = set_path p k v ov)"
    unfolding r env_step_cases by (auto split: option.splits if_splits)
  then have "wf_val (PDict ov1)"
    using Cons.prems(2) coerce_not_dict wf_set_path by blast
  from Cons.IH [OF s2 this] show ?case .
qed

lemma run_steps_keeps:
  "run_steps env tbl ov = Inr ov' \<Longrightarrow> list_all (\<lambda>r. diverge (leaf_path r) (p @ [k])) tbl \<Longrightarrow>
   lookup_path ov' p k = lookup_path ov p k"
proof (induction tbl arbitrary: ov)
  case Nil
  then show ?case by simp
next
  case (Cons r rs)
  obtain var co p' k' where r: "r = (var, co, p', k')" by (cases r)
  from Cons.prems(1) obtain ov1 where s1: "env_step env r ov = Inr ov1" and s2: "run_steps env rs ov1 = Inr ov'"
    by (auto simp: bind_err_def split: sum.splits)
  from Cons.prems(2) have dv: "diverge (p' @ [k']) (p @ [k])" and rest: "list_all (\<lambda>r. diverge (leaf_path r) (p @ [k])) rs"
    by (simp_all add: r leaf_path_def)
  have "lookup_path ov1 p k = lookup_path ov p k"
    using s1 lookup_set_path_other [OF dv]
    unfolding r env_step_cases by (auto split: option.splits if_splits)
  with Cons.IH [OF s2 rest] show ?case by simp
qed

lemma run_steps_sets:
  "run_steps env tbl ov = Inr ov' \<Longrightarrow> later_diverge tbl \<Longrightarrow> (var, co, p, k) \<in> set tbl \<Longrightarrow>
   env var = Some s \<Longrightarrow> s \<noteq> [] \<Longrightarrow>
   \<exists>v. coerce co s = Some v \<and> lookup_path ov' p k = Some v"
proof (induction tbl arbitrary: ov)
  case Nil
  then show ?case by simp
next
  case (Cons r rs)
  from Cons.prems(1) obtain ov1 where s1: "env_step env r ov = Inr ov1" and s2: "run_steps env rs ov1 = Inr ov'"
    by (auto simp: bind_err_def split: sum.splits)
  from Cons.prems(2) have ld: "later_diverge rs"
    and dv: "list_all (\<lambda>r'. diverge (leaf_path r') (leaf_path r)) rs" by simp_all
  show ?case
  proof (cases "r = (var, co, p, k)")
    case True
    from s1 Cons.prems(4,5) obtain v where v: "coerce co s = Some v" "ov1 = set_path p k v ov"
      unfolding True env_step_cases by (auto split: option.splits)
    have "lookup_path ov' p k = lookup_path ov1 p k"
      using run_steps_keeps [OF s2, of p k] dv by (simp add: True leaf_path_def)
    with v show ?thesis by (simp add: lookup_set_path_same)
  next
    case False
    with Cons.prems(3) have "(var, co, p, k) \<in> set rs" by auto
    from Cons.IH [OF s2 ld this Cons.prems(4,5)] show ?thesis .
  qed
qed

lemma table_later_diverge: "later_diverge override_table"
  by (simp add: override_table_def leaf_path_def)

lemma overrides_leaf:
  assumes "get_env_overrides env = Inr ov" "(var, co, p, k) \<in> set override_table"
    "env var = Some s" "s \<noteq> []"
  shows "\<exists>v. coerce co s = Some v \<and> lookup_path ov p k = Some v \<and> \<not> is_dict v"
  using run_steps_sets [OF assms(1) [unfolded get_env_overrides_steps] table_later_diverge assms(2,3,4)]
    coerce_not_dict by blast

lemma overrides_wf:
  "get_env_overrides env = Inr ov \<Longrightarrow> wf_val (PDict ov)"
  using run_steps_wf [of env override_table "[]" ov] by (simp add: get_env_overrides_steps)

subsection \<open>Taking a loaded configuration apart\<close>

lemma bind_err_eq_Inr: "(bind_err m f = Inr y) = (\<exists>x. m = Inr x \<and> f x = Inr y)"
  by (cases m) (simp_all add: bind_err_def)

lemma bind_err_eq_Inl: "(bind_err m f = Inl e) = (m = Inl e \<or> (\<exists>x. m = Inr x \<and> f x = Inl e))"
  by (cases m) (simp_all add: bind_err_def)

lemma from_dict_Inr:
  assumes "from_dict d = Inr cfg"
  shows "\<exists>kw. section_kw d ''server'' = Inr kw \<and> ServerConfig_init kw = Inr (server cfg)"
    and "\<exists>kw. section_kw d ''cache'' = Inr kw \<and> CacheConfig_init kw = Inr (cache cfg)"
    and "\<exists>kw. subsection_kw d ''apis'' ''open_library'' = Inr kw \<and> APIConfig_init kw = Inr (open_library (apis cfg))"
    and "\<exists>kw. subsection_kw d ''apis'' ''wikipedia'' = Inr kw \<and> APIConfig_init kw = Inr (wikipedia (apis cfg))"
  using assms unfolding from_dict_def bind_err_eq_Inr by auto

lemma section_kw_lookup:
  "section_kw d sec = Inr kw \<Longrightarrow> lookup_path d [sec] k = Some v \<Longrightarrow> map_of kw k = Some v"
  by (auto simp: section_kw_def dict_get_def kwargs_def split: option.splits pyval.splits)

lemma subsection_kw_lookup:
  "subsection_kw d sec sub = Inr kw \<Longrightarrow> lookup_path d [sec, sub] k = Some v \<Longrightarrow> map_of kw k = Some v"
  by (auto simp: subsection_kw_def dict_get_def kwargs_def py_get_def bind_err_eq_Inr
      split: option.splits pyval.splits)

lemma server_leaf:
  assumes "ServerConfig_init kw = Inr sc" "map_of kw k = Some v"
  shows "k = ''host'' \<Longrightarrow> host sc = v" "k = ''port'' \<Longrightarrow> port sc = v"
    "k = ''log_level'' \<Longrightarrow> log_level sc = v" "k = ''debug'' \<Longrightarrow> debug sc = v"
  using assms by (auto simp: ServerConfig_init_def dict_get_def split: if_splits)

lemma cache_leaf:
  assumes "CacheConfig_init kw = Inr cc" "map_of kw k = Some v"
  shows "k = ''database_path'' \<Longrightarrow> database_path cc = v" "k = ''default_ttl'' \<Longrightarrow> default_ttl cc = v"
    "k = ''max_size_mb'' \<Longrightarrow> max_size_mb cc = v"
  using assms by (auto simp: CacheConfig_init_def dict_get_def split: if_splits)

lemma api_leaf:
  assumes "APIConfig_init kw = Inr ac" "map_of kw ''rate_limit'' = Some v"
  shows "rate_limit ac = v"
  using assms by (auto simp: APIConfig_init_def split: if_splits option.splits)

lemma from_dict_leaf:
  assumes fd: "from_dict d = Inr cfg"
  shows "lookup_path d [''server''] ''host'' = Some v \<Longrightarrow> host (server cfg) = v"
    and "lookup_path d [''server''] ''port'' = Some v \<Longrightarrow> port (server cfg) = v"
    and "lookup_path d [''server''] ''log_level'' = Some v \<Longrightarrow> log_level (server cfg) = v"
    and "lookup_path d [''server''] ''debug'' = Some v \<Longrightarrow> debug (server cfg) = v"
    and "lookup_path d [''cache''] ''database_path'' = Some v \<Longrightarrow> database_path (cache cfg) = v"
    and "lookup_path d [''cache''] ''default_ttl'' = Some v \<Longrightarrow> default_ttl (cache cfg) = v"
    and "lookup_path d [''cache''] ''max_size_mb'' = Some v \<Longrightarrow> max_size_mb (cache cfg) = v"
    and "lookup_path d [''apis'', ''open_library''] ''rate_limit'' = Some v \<Longrightarrow>
           rate_limit (open_library (apis cfg)) = v"
    and "lookup_path d [''apis'', ''wikipedia''] ''rate_limit'' = Some v \<Longrightarrow>
           rate_limit (wikipedia (apis cfg)) = v"
proof -
  from from_dict_Inr [OF fd] obtain kws kwc kwo kww where
    s: "section_kw d ''server'' = Inr kws" "ServerConfig_init kws = Inr (server cfg)" and
    c: "section_kw d ''cache'' = Inr kwc" "CacheConfig_init kwc = Inr (cache cfg)" and
    ol: "subsection_kw d ''apis'' ''open_library'' = Inr kwo" "APIConfig_init kwo = Inr (open_library (apis cfg))" and
    wp: "subsection_kw d ''apis'' ''wikipedia'' = Inr kww" "APIConfig_init kww = Inr (wikipedia (apis cfg))"
    by blast
  note sl = server_leaf [OF s(2) section_kw_lookup [OF s(1)]]
  note cl = cache_leaf [OF c(2) section_kw_lookup [OF c(1)]]
  note al = api_leaf [OF ol(2) subsection_kw_lookup [OF ol(1)]]
  note wl = api_leaf [OF wp(2) subsection_kw_lookup [OF wp(1)]]
  show "lookup_path d [''server''] ''host'' = Some v \<Longrightarrow> host (server cfg) = v"
    by (erule sl(1)) (rule refl)
  show "lookup_path d [''server''] ''port'' = Some v \<Longrightarrow> port (server cfg) = v"
    by (erule sl(2)) (rule refl)
  show "lookup_path d [''server''] ''log_level'' = Some v \<Longrightarrow> log_level (server cfg) = v"
    by (erule sl(3)) (rule refl)
  show "lookup_path d [''server''] ''debug'' = Some v \<Longrightarrow> debug (server cfg) = v"
    by (erule sl(4)) (rule refl)
  show "lookup_path d [''cache''] ''database_path'' = Some v \<Longrightarrow> database_path (cache cfg) = v"
    by (erule cl(1)) (rule refl)
  show "lookup_path d [''cache''] ''default_ttl'' = Some v \<Longrightarrow> default_ttl (cache cfg) = v"
    by (erule cl(2)) (rule refl)
  show "lookup_path d [''cache''] ''max_size_mb'' = Some v \<Longrightarrow> max_size_mb (cache cfg) = v"
    by (erule cl(3)) (rule refl)
  show "lookup_path d [''apis'', ''open_library''] ''rate_limit'' = Some v \<Longrightarrow>
           rate_limit (open_library (apis cfg)) = v"
    by (erule al)
  show "lookup_path d [''apis'', ''wikipedia''] ''rate_limit'' = Some v \<Longrightarrow>
           rate_limit (wikipedia (apis cfg)) = v"
    by (erule wl)
qed

lemma load_config_Inr:
  assumes "load_config cp w = Inr cfg"
  shows "\<exists>b ov. load_file cp w = Inr (PDict b) \<and> get_env_overrides (getenv w) = Inr ov
            \<and> from_dict (merge_configs b ov) = Inr cfg"
proof -
  from assms obtain data ov merged where
    f: "load_file cp w = Inr data" and e: "get_env_overrides (getenv w) = Inr ov" and
    m: "merge_loaded data ov = Inr merged" and
    c: "(case merged of PDict d \<Rightarrow> from_dict d | _ \<Rightarrow> Inl AttributeError) = Inr cfg"
    unfolding load_config_def bind_err_eq_Inr by blast
  from c obtain d where d: "merged = PDict d" "from_dict d = Inr cfg"
    by (cases merged) simp_all
  from m d(1) obtain b where "data = PDict b" "d = merge_configs b ov"
    by (cases data) (simp_all add: merge_loaded_def split: if_splits)
  with f e d(2) show ?thesis by blast
qed

lemma load_config_merged_leaf:
  assumes ld: "load_config cp w = Inr cfg" and row: "(var, co, p, k) \<in> set override_table"
    and env: "getenv w var = Some s" "s \<noteq> []"
  shows "\<exists>b ov v. from_dict (merge_configs b ov) = Inr cfg \<and> coerce co s = Some v
           \<and> lookup_path (merge_configs b ov) p k = Some v"
proof -
  from load_config_Inr [OF ld] obtain b ov where
    ov: "get_env_overrides (getenv w) = Inr ov" and fd: "from_dict (merge_configs b ov) = Inr cfg"
    by blast
  from overrides_leaf [OF ov row env] obtain v where
    v: "coerce co s = Some v" "lookup_path ov p k = Some v" "\<not> is_dict v" by blast
  have "lookup_path (merge_configs b ov) p k = Some v"
    using merge_lookup_path [OF overrides_wf [OF ov] v(2,3)] .
  with fd v(1) show ?thesis by blast
qed

subsection \<open>What each variable does to a loaded configuration\<close>

lemma table_rows:
  "(''OPENEDU_MCP_HOST'', AsStr, [''server''], ''host'') \<in> set override_table"
  "(''OPENEDU_MCP_PORT'', AsInt, [''server''], ''port'') \<in> set override_table"
  "(''OPENEDU_MCP_LOG_LEVEL'', AsStr, [''server''], ''log_level'') \<in> set override_table"
  "(''OPENEDU_MCP_DEBUG'', AsBool, [''server''], ''debug'') \<in> set override_table"
  "(''OPENEDU_MCP_CACHE_PATH'', AsStr, [''cache''], ''database_path'') \<in> set override_table"
  "(''OPENEDU_MCP_CACHE_TTL'', AsInt, [''cache''], ''default_ttl'') \<in> set override_table"
  "(''OPENEDU_MCP_CACHE_MAX_SIZE_MB'', AsInt, [''cache''], ''max_size_mb'') \<in> set override_table"
  "(''OPENEDU_MCP_OPEN_LIBRARY_RATE_LIMIT'', AsInt, [''apis'', ''open_library''], ''rate_limit'')
     \<in> set override_table"
  "(''OPENEDU_MCP_WIKIPEDIA_RATE_LIMIT'', AsInt, [''apis'', ''wikipedia''], ''rate_limit'')
     \<in> set override_table"
  by (simp_all add: override_table_def)

lemma load_env_fields:
  assumes ld: "load_config cp w = Inr cfg" and ne: "s \<noteq> []"
  shows "getenv w ''OPENEDU_MCP_HOST'' = Some s \<Longrightarrow> host (server cfg) = PStr s"
    and "getenv w ''OPENEDU_MCP_PORT'' = Some s \<Longrightarrow>
           \<exists>n. py_int s = Some n \<and> port (server cfg) = PInt n"
    and "getenv w ''OPENEDU_MCP_LOG_LEVEL'' = Some s \<Longrightarrow> log_level (server cfg) = PStr s"
    and "getenv w ''OPENEDU_MCP_DEBUG'' = Some s \<Longrightarrow>
           debug (server cfg) = PBool (py_lower s = ''true'')"
    and "getenv w ''OPENEDU_MCP_CACHE_PATH'' = Some s \<Longrightarrow> database_path (cache cfg) = PStr s"
    and "getenv w ''OPENEDU_MCP_CACHE_TTL'' = Some s \<Longrightarrow>
           \<exists>n. py_int s = Some n \<and> default_ttl (cache cfg) = PInt n"
    and "getenv w ''OPENEDU_MCP_CACHE_MAX_SIZE_MB'' = Some s \<Longrightarrow>
           \<exists>n. py_int s = Some n \<and> max_size_mb (cache cfg) = PInt n"
    and "getenv w ''OPENEDU_MCP_OPEN_LIBRARY_RATE_LIMIT'' = Some s \<Longrightarrow>
           \<exists>n. py_int s = Some n \<and> rate_limit (open_library (apis cfg)) = PInt n"
    and "getenv w ''OPENEDU_MCP_WIKIPEDIA_RATE_LIMIT'' = Some s \<Longrightarrow>
           \<exists>n. py_int s = Some n \<and> rate_limit (wikipedia (apis cfg)) = PInt n"
proof -
  note ml = load_config_merged_leaf [OF ld _ _ ne]
  show "getenv w ''OPENEDU_MCP_HOST'' = Some s \<Longrightarrow> host (server cfg) = PStr s"
    using ml [OF table_rows(1)] from_dict_leaf(1) by fastforce
  show "getenv w ''OPENEDU_MCP_PORT'' = Some s \<Longrightarrow>
           \<exists>n. py_int s = Some n \<and> port (server cfg) = PInt n"
    using ml [OF table_rows(2)] from_dict_leaf(2) by fastforce
  show "getenv w ''OPENEDU_MCP_LOG_LEVEL'' = Some s \<Longrightarrow> log_level (server cfg) = PStr s"
    using ml [OF table_rows(3)] from_dict_leaf(3) by fastforce
  show "getenv w ''OPENEDU_MCP_DEBUG'' = Some s \<Longrightarrow>
           debug (server cfg) = PBool (py_lower s = ''true'')"
    using ml [OF table_rows(4)] from_dict_leaf(4) by fastforce
  show "getenv w ''OPENEDU_MCP_CACHE_PATH'' = Some s \<Longrightarrow> database_path (cache cfg) = PStr s"
    using ml [OF table_rows(5)] from_dict_leaf(5) by fastforce
  show "getenv w ''OPENEDU_MCP_CACHE_TTL'' = Some s \<Longrightarrow>
           \<exists>n. py_int s = Some n \<and> default_ttl (cache cfg) = PInt n"
    using ml [OF table_rows(6)] from_dict_leaf(6) by fastforce
  show "getenv w ''OPENEDU_MCP_CACHE_MAX_SIZE_MB'' = Some s \<Longrightarrow>
           \<exists>n. py_int s = Some n \<and> max_size_mb (cache cfg) = PInt n"
    using ml [OF table_rows(7)] from_dict_leaf(7) by fastforce
  show "getenv w ''OPENEDU_MCP_OPEN_LIBRARY_RATE_LIMIT'' = Some s \<Longrightarrow>
           \<exists>n. py_int s = Some n \<and> rate_limit (open_library (apis cfg)) = PInt n"
    using ml [OF table_rows(8)] from_dict_leaf(8) by fastforce
  show "getenv w ''OPENEDU_MCP_WIKIPEDIA_RATE_LIMIT'' = Some s \<Longrightarrow>
           \<exists>n. py_int s = Some n \<and> rate_limit (wikipedia (apis cfg)) = PInt n"
    using ml [OF table_rows(9)] from_dict_leaf(9) by fastforce
qed

lemma py_int_7000: "py_int ''7000'' = Some 7000"
  by code_simp

subsection \<open>An empty value and a missing variable\<close>

lemma env_step_unset:
  assumes "env var = Some []"
  shows "env_step (env(var := None)) r ov = env_step env r ov"
proof -
  obtain var' co p k where r: "r = (var', co, p, k)" by (cases r)
  show ?thesis using assms by (simp add: r env_step_cases)
qed

lemma env_step_unset_fun:
  assumes "env var = Some []"
  shows "env_step (env(var := None)) r = env_step env r"
  by (rule ext) (rule env_step_unset [of env var, OF assms])

lemma run_steps_unset:
  assumes "env var = Some []"
  shows "run_steps (env(var := None)) tbl ov = run_steps env tbl ov"
proof (induction tbl arbitrary: ov)
  case Nil
  show ?case by simp
next
  case (Cons r rs)
  have a: "run_steps (env(var := None)) rs = run_steps env rs"
    by (rule ext) (rule Cons.IH)
  show ?case
    unfolding run_steps.simps a env_step_unset_fun [of env var, OF assms] ..
qed

lemma first_existing_getenv:
  "first_existing (w\<lparr>getenv := g\<rparr>) ps = first_existing w ps"
  by (induction ps) simp_all

lemma load_file_getenv:
  assumes "g ''OPENEDU_MCP_CONFIG_PATH'' = getenv w ''OPENEDU_MCP_CONFIG_PATH''"
  shows "load_file cp (w\<lparr>getenv := g\<rparr>) = load_file cp w"
proof -
  have pp: "possible_paths (w\<lparr>getenv := g\<rparr>) = possible_paths w"
    using assms by (simp add: possible_paths_def)
  have rf: "resolve_file cp (w\<lparr>getenv := g\<rparr>) = resolve_file cp w"
    unfolding resolve_file_def pp first_existing_getenv ..
  show ?thesis unfolding load_file_def rf by (simp split: option.splits)
qed

lemma override_var_not_path:
  "var \<in> set override_vars \<Longrightarrow> var \<noteq> ''OPENEDU_MCP_CONFIG_PATH''"
  by (auto simp: override_vars_def)

subsection \<open>Integer variables and the case of letters\<close>

lemma digit_not_space: "is_digit c \<Longrightarrow> \<not> is_space c"
  by (auto simp: is_digit_def is_space_def Let_def)

lemma digit_not_sign: "is_digit c \<Longrightarrow> c \<noteq> CHR ''+'' \<and> c \<noteq> CHR ''-''"
  by (auto simp: is_digit_def Let_def)

lemma py_int_too_many_digits:
  assumes d: "list_all is_digit ds" and l: "int_max_str_digits < length ds"
  shows "py_int ds = None"
proof -
  from l obtain c cs where ds: "ds = c # cs" by (cases ds) auto
  with d have c: "is_digit c" by simp
  have 1: "dropWhile is_space ds = ds"
    using c by (simp add: ds digit_not_space)
  have 2: "takeWhile is_digit_or_us ds = ds"
    using d by (simp add: takeWhile_eq_all_conv list_all_iff is_digit_or_us_def)
  have 3: "filter is_digit ds = ds"
    using d by (simp add: filter_id_conv list_all_iff)
  have "py_int ds = (if ds = [] \<or> hd ds = CHR ''_'' \<or> last ds = CHR ''_'' \<or> double_us ds
      \<or> \<not> list_all is_space (dropWhile is_digit_or_us ds) \<or> int_max_str_digits < length ds
      then None else Some (1 * digits_value ds))"
    unfolding py_int_def 1 using digit_not_sign [OF c] 2 3
    by (simp add: ds Let_def)
  with l show ?thesis by simp
qed

lemma int_var_row:
  "var \<in> set int_vars \<Longrightarrow> \<exists>p k. (var, AsInt, p, k) \<in> set override_table"
  unfolding int_vars_def using table_rows(2,6,7,8,9) by auto

lemma char_eq_nat: "(x = y) = ((of_char x :: nat) = of_char y)"
  by simp

lemma of_char_lower:
  "(of_char (lower_char c) :: nat) =
     (if (65 \<le> (of_char c :: nat) \<and> (of_char c :: nat) \<le> 90) \<or>
         (192 \<le> (of_char c :: nat) \<and> (of_char c :: nat) \<le> 222 \<and> (of_char c :: nat) \<noteq> 215)
      then of_char c + 32 else of_char c)"
  by (auto simp: lower_char_def Let_def)

lemma lower_char_letters:
  "(lower_char c = CHR ''t'') = (c = CHR ''t'' \<or> c = CHR ''T'')"
  "(lower_char c = CHR ''r'') = (c = CHR ''r'' \<or> c = CHR ''R'')"
  "(lower_char c = CHR ''u'') = (c = CHR ''u'' \<or> c = CHR ''U'')"
  "(lower_char c = CHR ''e'') = (c = CHR ''e'' \<or> c = CHR ''E'')"
  unfolding char_eq_nat [of "lower_char c"] char_eq_nat [of c] of_char_lower by auto

lemma py_lower_true: "(py_lower s = ''true'') = is_true_literal s"
proof (cases s rule: is_true_literal.cases)
  case (1 a b c d)
  then show ?thesis by (simp add: py_lower_def lower_char_letters)
qed (auto simp: py_lower_def)

subsection \<open>Keys outside the schema\<close>
















subsection \<open>What the merge writes to\<close>

lemma length_set_item [simp]: "length (set_item s a key v) = length s"
  by (simp add: set_item_def)

lemma set_item_other [simp]: "a' \<noteq> a \<Longrightarrow> set_item s a key v ! a' = s ! a'"
  by (simp add: set_item_def)

lemma frame_loop_step:
  assumes st: "frame_st n" and lp: "frame_loop n"
  shows "frame_loop (Suc n)"
  unfolding frame_loop_def
proof (intro allI impI)
  fix s r ov i s' r'
  assume m: "merge_loop (Suc n) s r ov i = Some (s', r')" and r: "r < length s"
  show "r' = r \<and> length s \<le> length s' \<and> (\<forall>a < length s. a \<noteq> r \<longrightarrow> s' ! a = s ! a)"
  proof (cases "i < length (s ! ov)")
    case False
    with m show ?thesis by simp
  next
    case True
    let ?key = "fst ((s ! ov) ! i)" and ?val = "snd ((s ! ov) ! i)"
    show ?thesis
    proof (cases "both_dicts (map_of (s ! r) ?key) ?val")
      case None
      with m True have l: "merge_loop n (set_item s r ?key ?val) r ov (Suc i) = Some (s', r')"
        by (simp add: Let_def)
      from lp [unfolded frame_loop_def, rule_format, OF l] r show ?thesis by simp
    next
      case (Some p)
      obtain b o' where p: "p = (b, o')" by (cases p)
      from m True Some p obtain s1 r1 where
        c: "merge_st n s b o' = Some (s1, r1)" and
        l: "merge_loop n (set_item s1 r ?key (HRef r1)) r ov (Suc i) = Some (s', r')"
        by (auto simp: Let_def split: option.splits)
      from st [unfolded frame_st_def, rule_format, OF c]
      have f1: "length s \<le> length s1" "\<forall>a < length s. s1 ! a = s ! a" by simp_all
      with r have r1: "r < length (set_item s1 r ?key (HRef r1))" by simp
      from lp [unfolded frame_loop_def, rule_format, OF l r1]
      have f2: "r' = r" "length s1 \<le> length s'"
        "\<forall>a < length s1. a \<noteq> r \<longrightarrow> s' ! a = set_item s1 r ?key (HRef r1) ! a" by simp_all
      show ?thesis
      proof (intro conjI allI impI)
        show "r' = r" by (rule f2(1))
        show "length s \<le> length s'" using f1(1) f2(2) by simp
      next
        fix a assume a: "a < length s" "a \<noteq> r"
        with f1(1) have "a < length s1" by simp
        with f2(3) a(2) have "s' ! a = s1 ! a" by simp
        with f1(2) a(1) show "s' ! a = s ! a" by simp
      qed
    qed
  qed
qed

lemma frame_st_step:
  assumes lp: "frame_loop n"
  shows "frame_st (Suc n)"
  unfolding frame_st_def
proof (intro allI impI)
  fix s b ov s' r
  assume m: "merge_st (Suc n) s b ov = Some (s', r)"
  then have l: "merge_loop n (s @ [s ! b]) (length s) ov 0 = Some (s', r)"
    by (simp split: if_splits)
  have "length s < length (s @ [s ! b])" by simp
  from lp [unfolded frame_loop_def, rule_format, OF l this]
  have f: "r = length s" "length (s @ [s ! b]) \<le> length s'"
    "\<forall>a < length (s @ [s ! b]). a \<noteq> length s \<longrightarrow> s' ! a = (s @ [s ! b]) ! a" by simp_all
  show "length s \<le> r \<and> r < length s' \<and> length s \<le> length s' \<and> (\<forall>a < length s. s' ! a = s ! a)"
  proof (intro conjI allI impI)
    show "length s \<le> r" using f(1) by simp
    show "r < length s'" using f(1,2) by simp
    show "length s \<le> length s'" using f(2) by simp
  next
    fix a assume a: "a < length s"
    with f(3) have "s' ! a = (s @ [s ! b]) ! a" by simp
    with a show "s' ! a = s ! a" by (simp add: nth_append)
  qed
qed

lemma frame_both: "frame_st n \<and> frame_loop n"
proof (induction n)
  case 0
  show ?case by (simp add: frame_st_def frame_loop_def)
next
  case (Suc n)
  then show ?case using frame_st_step frame_loop_step by blast
qed

lemma merge_st_frame:
  assumes "merge_st n s b ov = Some (s', r)"
  shows "length s \<le> r" "r < length s'" "length s \<le> length s'" "\<And>a. a < length s \<Longrightarrow> s' ! a = s ! a"
  using frame_both [of n] assms unfolding frame_st_def by blast+

subsection \<open>The store merge computes the merge of the values\<close>

lemma those_map_Some:
  "those (map f xs) = Some ys \<longleftrightarrow> list_all2 (\<lambda>x y. f x = Some y) xs ys"
proof (induction xs arbitrary: ys)
  case Nil
  then show ?case by auto
next
  case (Cons x xs)
  show ?case
    by (cases ys) (auto simp: Cons.IH split: option.splits)
qed

lemma abs_items_Some:
  "abs_items n ok s d = Some D \<longleftrightarrow>
     list_all2 (\<lambda>kv kp. fst kp = fst kv \<and> abs_val n ok s (snd kv) = Some (snd kp)) d D"
proof -
  have e: "(\<lambda>kv kp. map_option (Pair (fst kv)) (abs_val n ok s (snd kv)) = Some kp)
      = (\<lambda>kv kp. fst kp = fst kv \<and> abs_val n ok s (snd kv) = Some (snd kp))"
    by (intro ext) (auto simp: map_option_case split: option.splits)
  show ?thesis unfolding abs_items_def those_map_Some e ..
qed

lemma abs_val_mono:
  assumes "abs_val n ok s v = Some p" "n \<le> m"
    "\<And>a. a < length s \<Longrightarrow> ok a \<Longrightarrow> ok' a \<and> a < length s' \<and> s' ! a = s ! a"
  shows "abs_val m ok' s' v = Some p"
  using assms(1,2)
proof (induction n arbitrary: m v p)
  case 0
  then show ?case by simp
next
  case (Suc n)
  from Suc.prems(2) obtain m' where m: "m = Suc m'" "n \<le> m'" by (cases m) auto
  have ih: "\<And>v p. abs_val n ok s v = Some p \<Longrightarrow> abs_val m' ok' s' v = Some p"
    using Suc.IH m(2) by blast
  show ?case
  proof (cases v)
    case (HList xs)
    with Suc.prems(1) obtain ps where ps: "p = PList ps" "those (map (abs_val n ok s) xs) = Some ps"
      by auto
    from ps(2) have "list_all2 (\<lambda>x y. abs_val n ok s x = Some y) xs ps" by (simp add: those_map_Some)
    then have "list_all2 (\<lambda>x y. abs_val m' ok' s' x = Some y) xs ps"
      by (rule list_all2_mono) (rule ih)
    then show ?thesis by (simp add: HList m(1) ps(1) those_map_Some)
  next
    case (HRef a)
    with Suc.prems(1) obtain D where a: "a < length s" "ok a" and
      D: "p = PDict D" "abs_items n ok s (s ! a) = Some D"
      by (auto simp: abs_items_def split: if_splits)
    from D(2) have "list_all2 (\<lambda>kv kp. fst kp = fst kv \<and> abs_val n ok s (snd kv) = Some (snd kp)) (s ! a) D"
      by (simp add: abs_items_Some)
    then have "list_all2 (\<lambda>kv kp. fst kp = fst kv \<and> abs_val m' ok' s' (snd kv) = Some (snd kp)) (s ! a) D"
      by (rule list_all2_mono) (auto intro: ih)
    then have "abs_items m' ok' s' (s ! a) = Some D" by (simp add: abs_items_Some)
    moreover from assms(3) [OF a] have "ok' a" "a < length s'" "s' ! a = s ! a" by simp_all
    ultimately show ?thesis by (simp add: HRef m(1) D(1) abs_items_def)
  qed (use Suc.prems(1) m(1) in auto)
qed

lemma abs_items_mono:
  assumes "abs_items n ok s d = Some D" "n \<le> m"
    "\<And>a. a < length s \<Longrightarrow> ok a \<Longrightarrow> ok' a \<and> a < length s' \<and> s' ! a = s ! a"
  shows "abs_items m ok' s' d = Some D"
proof -
  from assms(1) have "list_all2 (\<lambda>kv kp. fst kp = fst kv \<and> abs_val n ok s (snd kv) = Some (snd kp)) d D"
    by (simp add: abs_items_Some)
  then have "list_all2 (\<lambda>kv kp. fst kp = fst kv \<and> abs_val m ok' s' (snd kv) = Some (snd kp)) d D"
    by (rule list_all2_mono) (auto intro: abs_val_mono [OF _ assms(2,3)])
  then show ?thesis by (simp add: abs_items_Some)
qed

lemma abs_items_Nil [simp]: "abs_items n ok s [] = Some []"
  by (simp add: abs_items_def)

lemma abs_items_Cons:
  "abs_items n ok s (x # xs) = Some D \<longleftrightarrow>
     (\<exists>p D'. D = (fst x, p) # D' \<and> abs_val n ok s (snd x) = Some p \<and> abs_items n ok s xs = Some D')"
  unfolding abs_items_Some by (cases D) (auto simp: list_all2_Cons1)

lemma abs_items_Nil_iff: "abs_items n ok s d = Some [] \<longleftrightarrow> d = []"
  unfolding abs_items_Some by auto

lemma abs_items_map_of:
  "abs_items n ok s d = Some D \<Longrightarrow>
   map_of D k = (case map_of d k of None \<Rightarrow> None | Some v \<Rightarrow> abs_val n ok s v)"
proof (induction d arbitrary: D)
  case Nil
  then show ?case by simp
next
  case (Cons x xs)
  from Cons.prems obtain p D' where
    D: "D = (fst x, p) # D'" "abs_val n ok s (snd x) = Some p" "abs_items n ok s xs = Some D'"
    by (auto simp: abs_items_Cons)
  show ?case using Cons.IH [OF D(3)] D(1,2) by (cases x) auto
qed

lemma abs_items_update:
  "abs_items n ok s d = Some D \<Longrightarrow> abs_val n ok s v = Some p \<Longrightarrow>
   abs_items n ok s (AList.update k v d) = Some (AList.update k p D)"
proof (induction d arbitrary: D)
  case Nil
  then show ?case by (simp add: abs_items_Cons)
next
  case (Cons x xs)
  from Cons.prems(1) obtain q D' where
    D: "D = (fst x, q) # D'" "abs_val n ok s (snd x) = Some q" "abs_items n ok s xs = Some D'"
    by (auto simp: abs_items_Cons)
  show ?case
    using Cons.IH [OF D(3) Cons.prems(2)] D Cons.prems(2)
    by (cases x) (auto simp: abs_items_Cons)
qed

lemma abs_val_PDict:
  "abs_val m ok s v = Some (PDict D) \<Longrightarrow>
   \<exists>a m'. v = HRef a \<and> m = Suc m' \<and> a < length s \<and> ok a \<and> abs_items m' ok s (s ! a) = Some D"
  by (cases m; cases v) (auto simp: abs_items_def split: if_splits)

lemma abs_val_HRef:
  "abs_val m ok s (HRef a) = Some p \<Longrightarrow>
   \<exists>D m'. p = PDict D \<and> m = Suc m' \<and> a < length s \<and> ok a \<and> abs_items m' ok s (s ! a) = Some D"
  by (cases m) (auto simp: abs_items_def split: if_splits)

lemma abs_val_HRef_I:
  "a < length s \<Longrightarrow> ok a \<Longrightarrow> abs_items m ok s (s ! a) = Some D \<Longrightarrow>
   abs_val (Suc m) ok s (HRef a) = Some (PDict D)"
  by (simp add: abs_items_def)

lemma mono_st_step:
  assumes "mono_loop n"
  shows "mono_st (Suc n)"
  unfolding mono_st_def
proof (intro allI impI)
  fix s b ov x m
  assume a: "merge_st (Suc n) s b ov = Some x" "Suc n \<le> m"
  then obtain m' where m: "m = Suc m'" "n \<le> m'" by (cases m) auto
  from a(1) have c: "b < length s \<and> ov < length s"
    and l: "merge_loop n (s @ [s ! b]) (length s) ov 0 = Some x"
    by (auto split: if_splits)
  from assms [unfolded mono_loop_def, rule_format, OF l m(2)] c
  show "merge_st m s b ov = Some x" by (simp add: m(1))
qed

lemma mono_loop_step:
  assumes st: "mono_st n" and lp: "mono_loop n"
  shows "mono_loop (Suc n)"
  unfolding mono_loop_def
proof (intro allI impI)
  fix s r ov i x m
  assume a: "merge_loop (Suc n) s r ov i = Some x" "Suc n \<le> m"
  then obtain m' where m: "m = Suc m'" "n \<le> m'" by (cases m) auto
  note st' = st [unfolded mono_st_def, rule_format, OF _ m(2)]
  note lp' = lp [unfolded mono_loop_def, rule_format, OF _ m(2)]
  show "merge_loop m s r ov i = Some x"
  proof (cases "i < length (s ! ov)")
    case False
    with a(1) show ?thesis by (simp add: m(1))
  next
    case True
    let ?key = "fst ((s ! ov) ! i)" and ?val = "snd ((s ! ov) ! i)"
    show ?thesis
    proof (cases "both_dicts (map_of (s ! r) ?key) ?val")
      case None
      with a(1) True have "merge_loop n (set_item s r ?key ?val) r ov (Suc i) = Some x"
        by (simp add: Let_def)
      from lp' [OF this] None True show ?thesis by (simp add: m(1) Let_def)
    next
      case (Some p)
      obtain b o' where p: "p = (b, o')" by (cases p)
      from a(1) True Some p obtain s1 r1 where
        c: "merge_st n s b o' = Some (s1, r1)" and
        l: "merge_loop n (set_item s1 r ?key (HRef r1)) r ov (Suc i) = Some x"
        by (auto simp: Let_def split: option.splits)
      from st' [OF c] lp' [OF l] Some p True show ?thesis by (simp add: m(1) Let_def)
    qed
  qed
qed

lemma mono_both: "mono_st n \<and> mono_loop n"
proof (induction n)
  case 0
  show ?case by (simp add: mono_st_def mono_loop_def)
next
  case (Suc n)
  then show ?case using mono_st_step mono_loop_step by blast
qed

lemma merge_st_fuel:
  "merge_st n s b ov = Some x \<Longrightarrow> n \<le> m \<Longrightarrow> merge_st m s b ov = Some x"
  using mono_both [of n] unfolding mono_st_def by blast

lemma merge_loop_fuel:
  "merge_loop n s r ov i = Some x \<Longrightarrow> n \<le> m \<Longrightarrow> merge_loop m s r ov i = Some x"
  using mono_both [of n] unfolding mono_loop_def by blast

lemma merge_loop_frame:
  assumes "merge_loop n s r ov i = Some (s', r')" "r < length s"
  shows "r' = r" "length s \<le> length s'" "\<And>a. a < length s \<Longrightarrow> a \<noteq> r \<Longrightarrow> s' ! a = s ! a"
  using frame_both [of n] assms unfolding frame_loop_def by blast+

lemma call_refines:
  assumes lr: "loop_refines B O'" and b: "b < length s" and ov: "ov < length s"
    and up: "\<And>a. length s \<le> a \<Longrightarrow> ok a"
    and aB: "abs_items m ok s (s ! b) = Some B" and aO: "abs_items m ok s (s ! ov) = Some O'"
  shows "\<exists>n s' r m'. merge_st n s b ov = Some (s', r) \<and>
           abs_val m' ok s' (HRef r) = Some (PDict (merge_configs B O'))"
proof -
  let ?s1 = "s @ [s ! b]" and ?r = "length s"
  let ?ok1 = "\<lambda>a. ok a \<and> a \<noteq> length s"
  have tr: "\<And>a. a < length s \<Longrightarrow> ok a \<Longrightarrow> ?ok1 a \<and> a < length ?s1 \<and> ?s1 ! a = s ! a"
    by (simp add: nth_append)
  have 1: "abs_items m ?ok1 ?s1 (?s1 ! ?r) = Some B"
    using abs_items_mono [OF aB le_refl tr] by simp
  have 2: "abs_items m ?ok1 ?s1 (drop 0 (?s1 ! ov)) = Some O'"
    using abs_items_mono [OF aO le_refl tr] ov by (simp add: nth_append)
  have 3: "\<forall>a. length ?s1 \<le> a \<longrightarrow> ?ok1 a" using up by simp
  from lr [unfolded loop_refines_def, rule_format, of ?r ?s1 ov ?ok1 m 0, OF _ _ _ _ 3 [rule_format] 1 2] ov
  obtain n s' m' where
    l: "merge_loop n ?s1 ?r ov 0 = Some (s', ?r)" and
    a: "abs_items m' ?ok1 s' (s' ! ?r) = Some (merge_configs B O')"
    by auto
  have m: "merge_st (Suc n) s b ov = Some (s', ?r)" using l b ov by simp
  from merge_loop_frame(2) [OF l] have rl: "?r < length s'" by simp
  have "abs_items m' ok s' (s' ! ?r) = Some (merge_configs B O')"
    by (rule abs_items_mono [OF a le_refl]) simp
  from abs_val_HRef_I [OF rl up [OF le_refl] this] m show ?thesis by blast
qed

lemma both_dicts_Some:
  "both_dicts x v = Some (b, ov) \<longleftrightarrow> x = Some (HRef b) \<and> v = HRef ov"
  by (cases "(x, v)" rule: both_dicts.cases) auto

lemma abs_val_not_ref:
  "abs_val m ok s v = Some p \<Longrightarrow> (\<And>a. v \<noteq> HRef a) \<Longrightarrow> (\<And>D. p \<noteq> PDict D)"
  by (cases m; cases v) auto

lemma abs_items_entry:
  "abs_items n ok s d = Some D \<Longrightarrow> map_of d k = Some v \<Longrightarrow> \<exists>p. abs_val n ok s v = Some p"
proof (induction d arbitrary: D)
  case Nil
  then show ?case by simp
next
  case (Cons x xs)
  from Cons.prems(1) obtain p D' where
    D: "abs_val n ok s (snd x) = Some p" "abs_items n ok s xs = Some D'"
    by (auto simp: abs_items_Cons)
  show ?case
  proof (cases "fst x = k")
    case True
    with Cons.prems(2) D(1) show ?thesis by (cases x) auto
  next
    case False
    with Cons.prems(2) have "map_of xs k = Some v" by (cases x) auto
    from Cons.IH [OF D(2) this] show ?thesis .
  qed
qed

lemma loop_refines_all: "loop_refines R items"
proof (induction R items rule: merge_configs.induct)
  case (1 R)
  show ?case
    unfolding loop_refines_def
  proof (intro allI impI)
    fix s r ov i m ok
    assume aR: "abs_items m ok s (s ! r) = Some R"
      and aI: "abs_items m ok s (drop i (s ! ov)) = Some []"
    from aI have "\<not> i < length (s ! ov)" by (simp add: abs_items_Nil_iff)
    then have "merge_loop (Suc 0) s r ov i = Some (s, r)" by simp
    moreover have "abs_items m ok s (s ! r) = Some (merge_configs R [])" using aR by simp
    ultimately show "\<exists>n s' m'. merge_loop n s r ov i = Some (s', r) \<and>
        abs_items m' ok s' (s' ! r) = Some (merge_configs R [])"
      by blast
  qed
next
  case (2 R key val items)
  show ?case
    unfolding loop_refines_def
  proof (intro allI impI)
    fix s r ov i m ok
    assume r: "r < length s" and ov: "ov < length s" and ne: "ov \<noteq> r" and nok: "\<not> ok r"
      and up: "\<forall>a. length s \<le> a \<longrightarrow> ok a"
      and aR: "abs_items m ok s (s ! r) = Some R"
      and aI: "abs_items m ok s (drop i (s ! ov)) = Some ((key, val) # items)"
    from aI have i: "i < length (s ! ov)"
      by (cases "i < length (s ! ov)") (simp_all add: abs_items_def)
    let ?x = "(s ! ov) ! i"
    have dr: "drop i (s ! ov) = ?x # drop (Suc i) (s ! ov)"
      using i by (simp add: Cons_nth_drop_Suc)
    from aI [unfolded dr abs_items_Cons] have
      k: "fst ?x = key" and av: "abs_val m ok s (snd ?x) = Some val"
      and ar: "abs_items m ok s (drop (Suc i) (s ! ov)) = Some items"
      by auto
    note mo = abs_items_map_of [OF aR, of key]
    \<comment> \<open>what one more loop step needs, for a store that differs from \<open>s\<close> at \<open>r\<close> and above\<close>
    have step: "\<exists>n s' m'. merge_loop n s2 r ov (Suc i) = Some (s', r) \<and>
        abs_items m' ok s' (s' ! r) = Some (merge_configs R2 items)"
      if lr: "loop_refines R2 items" and len: "length s \<le> length s2"
        and same: "\<And>a. a < length s \<Longrightarrow> a \<noteq> r \<Longrightarrow> s2 ! a = s ! a"
        and a2: "abs_items m2 ok s2 (s2 ! r) = Some R2" and mm: "m \<le> m2"
      for s2 R2 m2
    proof -
      have tr: "\<And>a. a < length s \<Longrightarrow> ok a \<Longrightarrow> ok a \<and> a < length s2 \<and> s2 ! a = s ! a"
        using len same nok by (metis less_le_trans)
      have "s2 ! ov = s ! ov" using same [OF ov ne] .
      then have a3: "abs_items m2 ok s2 (drop (Suc i) (s2 ! ov)) = Some items"
        using abs_items_mono [OF ar mm tr] by simp
      have up2: "\<And>a. length s2 \<le> a \<Longrightarrow> ok a" using up len by (meson le_trans)
      from lr [unfolded loop_refines_def, rule_format, OF _ _ ne nok up2 a2 a3] r ov len
      show ?thesis by (meson less_le_trans)
    qed
    show "\<exists>n s' m'. merge_loop n s r ov i = Some (s', r) \<and>
        abs_items m' ok s' (s' ! r) = Some (merge_configs R ((key, val) # items))"
    proof (cases "both_dicts (map_of (s ! r) key) (snd ?x)")
      case None
      \<comment> \<open>the override's value replaces\<close>
      have pure_branch: "\<not> (\<exists>B D. map_of R key = Some (PDict B) \<and> val = PDict D)"
      proof (cases "\<exists>a. snd ?x = HRef a")
        case False
        with abs_val_not_ref [OF av] have "\<And>D. val \<noteq> PDict D" by blast
        then show ?thesis by blast
      next
        case True
        then obtain a where a: "snd ?x = HRef a" by blast
        have nr: "\<And>b. map_of (s ! r) key \<noteq> Some (HRef b)"
          using None a by (auto simp: both_dicts_Some [symmetric])
        have "\<And>D. map_of R key \<noteq> Some (PDict D)"
        proof
          fix D assume "map_of R key = Some (PDict D)"
          with mo obtain v where v: "map_of (s ! r) key = Some v" "abs_val m ok s v = Some (PDict D)"
            by (auto split: option.splits)
          from abs_val_PDict [OF v(2)] v(1) nr show False by auto
        qed
        then show ?thesis by blast
      qed
      have pure: "merge_configs R ((key, val) # items) = merge_configs (AList.update key val R) items"
        using pure_branch by (auto split: option.splits pyval.splits)
      let ?s2 = "set_item s r key (snd ?x)"
      have s2r: "?s2 ! r = AList.update key (snd ?x) (s ! r)" using r by (simp add: set_item_def)
      have tr: "ok a \<and> a < length ?s2 \<and> ?s2 ! a = s ! a" if "a < length s" "ok a" for a
      proof -
        from that nok have "a \<noteq> r" by blast
        with that show ?thesis by simp
      qed
      have a2: "abs_items m ok ?s2 (?s2 ! r) = Some (AList.update key val R)"
        unfolding s2r
        by (rule abs_items_update [OF abs_items_mono [OF aR le_refl tr] abs_val_mono [OF av le_refl tr]])
      have eq: "(case (map_of R key, val) of
                   (Some (PDict b), PDict ov) \<Rightarrow> AList.update key (PDict (merge_configs b ov)) R
                 | _ \<Rightarrow> AList.update key val R) = AList.update key val R"
        using pure_branch by (auto split: option.splits pyval.splits)
      have lr: "loop_refines (AList.update key val R) items"
        using "2.IH"(2) eq by simp
      have "\<exists>n s' m'. merge_loop n ?s2 r ov (Suc i) = Some (s', r) \<and>
        abs_items m' ok s' (s' ! r) = Some (merge_configs (AList.update key val R) items)"
        by (rule step [OF lr _ _ a2 le_refl]) (simp_all add: set_item_def)
      then obtain n s' m' where
        l: "merge_loop n ?s2 r ov (Suc i) = Some (s', r)" and
        a: "abs_items m' ok s' (s' ! r) = Some (merge_configs (AList.update key val R) items)"
        by blast
      have ml: "merge_loop (Suc n) s r ov i = Some (s', r)"
        using i None l k by (simp add: Let_def)
      have "abs_items m' ok s' (s' ! r) = Some (merge_configs R ((key, val) # items))"
        unfolding pure by (rule a)
      with ml show ?thesis by blast
    next
      case (Some p)
      \<comment> \<open>both sides are dicts: the nested call, then the rest of the loop\<close>
      obtain b' o' where p: "p = (b', o')" by (cases p)
      from Some p have rb: "map_of (s ! r) key = Some (HRef b')" and xo: "snd ?x = HRef o'"
        by (simp_all add: both_dicts_Some)
      from abs_val_HRef [OF av [unfolded xo]] obtain O' m0 where
        vO: "val = PDict O'" and m0: "m = Suc m0" and o': "o' < length s" "ok o'"
        and aO: "abs_items m0 ok s (s ! o') = Some O'"
        by blast
      from abs_items_entry [OF aR rb] obtain pb where pb: "abs_val m ok s (HRef b') = Some pb"
        by blast
      from abs_val_HRef [OF pb] m0 obtain B' where
        vB: "pb = PDict B'" and b': "b' < length s" "ok b'"
        and aB: "abs_items m0 ok s (s ! b') = Some B'"
        by auto
      have mR: "map_of R key = Some (PDict B')"
        using mo rb pb vB by simp
      let ?M = "merge_configs B' O'"
      have pure: "merge_configs R ((key, val) # items)
                    = merge_configs (AList.update key (PDict ?M) R) items"
        by (simp add: mR vO)
      have lr1: "loop_refines B' O'"
        by (rule "2.IH"(1) [OF refl mR [symmetric, THEN sym] refl vO]) 
      have lr2: "loop_refines (AList.update key (PDict ?M) R) items"
        using "2.IH"(2) by (simp add: mR vO)
      from call_refines [OF lr1 b'(1) o'(1) up [rule_format] aB aO] obtain n1 s1 r1 m1 where
        c: "merge_st n1 s b' o' = Some (s1, r1)" and
        a1: "abs_val m1 ok s1 (HRef r1) = Some (PDict ?M)"
        by blast
      note fr = merge_st_frame [OF c]
      let ?s2 = "set_item s1 r key (HRef r1)"
      have r1: "r < length s1" using r fr(3) by simp
      have s2r: "?s2 ! r = AList.update key (HRef r1) (s ! r)"
        using r1 fr(4) [OF r] by (simp add: set_item_def)
      have tr1: "ok a \<and> a < length ?s2 \<and> ?s2 ! a = s ! a" if "a < length s" "ok a" for a
      proof -
        from that nok have "a \<noteq> r" by blast
        with that fr(3) fr(4) [OF that(1)] show ?thesis by simp
      qed
      have tr2: "ok a \<and> a < length ?s2 \<and> ?s2 ! a = s1 ! a" if "a < length s1" "ok a" for a
      proof -
        from that nok have "a \<noteq> r" by blast
        with that show ?thesis by simp
      qed
      let ?m2 = "max m m1"
      have a2: "abs_items ?m2 ok ?s2 (?s2 ! r) = Some (AList.update key (PDict ?M) R)"
        unfolding s2r
        by (rule abs_items_update
              [OF abs_items_mono [OF aR max.cobounded1 tr1] abs_val_mono [OF a1 max.cobounded2 tr2]])
      have "\<exists>n s' m'. merge_loop n ?s2 r ov (Suc i) = Some (s', r) \<and>
        abs_items m' ok s' (s' ! r) = Some (merge_configs (AList.update key (PDict ?M) R) items)"
      proof (rule step [OF lr2 _ _ a2 max.cobounded1])
        show "length s \<le> length ?s2" using fr(3) by simp
        show "\<And>a. a < length s \<Longrightarrow> a \<noteq> r \<Longrightarrow> ?s2 ! a = s ! a" using fr(4) by simp
      qed
      then obtain n2 s' m' where
        l: "merge_loop n2 ?s2 r ov (Suc i) = Some (s', r)" and
        a: "abs_items m' ok s' (s' ! r) = Some (merge_configs (AList.update key (PDict ?M) R) items)"
        by blast
      let ?N = "max n1 n2"
      have c': "merge_st ?N s b' o' = Some (s1, r1)"
        by (rule merge_st_fuel [OF c max.cobounded1])
      have l': "merge_loop ?N ?s2 r ov (Suc i) = Some (s', r)"
        by (rule merge_loop_fuel [OF l max.cobounded2])
      have bd: "both_dicts (map_of (s ! r) (fst ?x)) (snd ?x) = Some (b', o')"
        using Some p k by simp
      have ml: "merge_loop (Suc ?N) s r ov i = Some (s', r)"
        using i bd c' l' k by (simp add: Let_def)
      have "abs_items m' ok s' (s' ! r) = Some (merge_configs R ((key, val) # items))"
        unfolding pure by (rule a)
      with ml show ?thesis by blast
    qed
  qed
qed

lemma denotes_frame:
  assumes "denotes s v p" "length s \<le> length s'" "\<And>a. a < length s \<Longrightarrow> s' ! a = s ! a"
  shows "denotes s' v p"
proof -
  from assms(1) obtain m where m: "abs_val m (\<lambda>a. True) s v = Some p"
    unfolding denotes_def by blast
  have "abs_val m (\<lambda>a. True) s' v = Some p"
    by (rule abs_val_mono [OF m le_refl]) (use assms(2,3) in auto)
  then show ?thesis unfolding denotes_def by blast
qed

lemma merge_st_returns:
  assumes B: "denotes s (HRef b) (PDict B)" and O: "denotes s (HRef ov) (PDict O')"
  shows "\<exists>n s' r. merge_st n s b ov = Some (s', r) \<and> denotes s' (HRef r) (PDict (merge_configs B O'))"
proof -
  from B obtain mb where mb: "abs_val mb (\<lambda>a. True) s (HRef b) = Some (PDict B)"
    unfolding denotes_def by blast
  from O obtain mo where mo: "abs_val mo (\<lambda>a. True) s (HRef ov) = Some (PDict O')"
    unfolding denotes_def by blast
  from abs_val_HRef [OF mb] obtain mb' where
    b: "b < length s" "abs_items mb' (\<lambda>a. True) s (s ! b) = Some B" by auto
  from abs_val_HRef [OF mo] obtain mo' where
    o: "ov < length s" "abs_items mo' (\<lambda>a. True) s (s ! ov) = Some O'" by auto
  let ?m = "max mb' mo'"
  have aB: "abs_items ?m (\<lambda>a. True) s (s ! b) = Some B"
    by (rule abs_items_mono [OF b(2) max.cobounded1]) simp
  have aO: "abs_items ?m (\<lambda>a. True) s (s ! ov) = Some O'"
    by (rule abs_items_mono [OF o(2) max.cobounded2]) simp
  from call_refines [OF loop_refines_all b(1) o(1) _ aB aO]
  show ?thesis unfolding denotes_def by blast
qed

lemma merge_st_result:
  assumes B: "denotes s (HRef b) (PDict B)" and O: "denotes s (HRef ov) (PDict O')"
    and m: "merge_st n s b ov = Some (s', r)"
  shows "denotes s' (HRef r) (PDict (merge_configs B O'))"
proof -
  from merge_st_returns [OF B O] obtain n0 s0 r0 where
    m0: "merge_st n0 s b ov = Some (s0, r0)" and
    d0: "denotes s0 (HRef r0) (PDict (merge_configs B O'))" by blast
  from merge_st_fuel [OF m0 max.cobounded1, of n] merge_st_fuel [OF m max.cobounded2, of n0]
  have "s0 = s'" "r0 = r" by simp_all
  with d0 show ?thesis by simp
qed

section \<open>Loading with no file and no variable\<close>

text \<open>
  C1. With no configuration file and no override variable, \<^verbatim>\<open>load_config\<close> is
  expected to return the built-in defaults. It does not return: the merged
  mapping is empty, \<^verbatim>\<open>from_dict\<close> calls \<^verbatim>\<open>APIConfig(**{})\<close> for the first service,
  and the constructor raises TypeError for the three fields that have no
  default.
\<close>

theorem load_config_no_sources_TypeError:
  "load_config None no_sources = Inl TypeError"
  unfolding no_sources_def by code_simp

section \<open>The education lists\<close>

text \<open>
  C2. When the \<^verbatim>\<open>education\<close> section is absent, the three lists are expected to
  be the seed lists of \<^verbatim>\<open>EducationConfig\<close>. On a mapping that holds only a
  complete \<^verbatim>\<open>apis\<close> section \<^verbatim>\<open>from_dict\<close> succeeds and each list is empty: the
  constructor is passed \<^verbatim>\<open>[]\<close>, the default of \<^verbatim>\<open>.get\<close>, so the default factories
  never run.
\<close>

theorem from_dict_education_absent_empty_lists:
  "map_sum id education (from_dict [(''apis'', example_apis)]) =
     Inr \<lparr>grade_levels = PList [], curriculum_standards = PList [], subjects = PList [],
          content_filters = ContentFilters_default\<rparr>"
  by code_simp

section \<open>Round trip\<close>

text \<open>
  C8. Serialising a configuration with \<^verbatim>\<open>to_dict\<close> and parsing the mapping with
  \<^verbatim>\<open>from_dict\<close> gives the configuration back. This holds for every
  configuration, so in particular for those the loader produces.
\<close>

theorem from_dict_to_dict:
  "from_dict (to_dict c) = Inr c"
  by (simp add: from_dict_def to_dict_def section_kw_def subsection_kw_def dict_get_def
      kwargs_def bind_err_def py_get_def ServerConfig_dict_def CacheConfig_dict_def
      APIConfig_dict_def ContentFilters_dict_def LoggingConfig_dict_def
      MonitoringConfig_dict_def ServerConfig_init_def CacheConfig_init_def APIConfig_init_def
      ContentFilters_init_def LoggingConfig_init_def MonitoringConfig_init_def known_keys_def
      server_fields_def cache_fields_def api_fields_def filter_fields_def logging_fields_def
      monitoring_fields_def)

section \<open>Precedence of the environment\<close>

text \<open>
  C4. Whenever \<^verbatim>\<open>load_config\<close> returns a configuration, every override variable
  that is set to a non-empty value decides its field, whatever the file says:
  with the port variable set to \<^verbatim>\<open>7000\<close> the port is 7000. The instance below
  the theorem runs a file that sets \<^verbatim>\<open>server.port\<close> to 9000 against an environment
  that sets all nine variables.
\<close>

theorem env_overrides_take_precedence:
  assumes "load_config cp w = Inr cfg"
  shows "(getenv w ''OPENEDU_MCP_PORT'' = Some ''7000'' \<longrightarrow> port (server cfg) = PInt 7000) \<and>
    (\<forall>s. s \<noteq> [] \<longrightarrow>
       (getenv w ''OPENEDU_MCP_HOST'' = Some s \<longrightarrow> host (server cfg) = PStr s) \<and>
       (getenv w ''OPENEDU_MCP_PORT'' = Some s \<longrightarrow>
          (\<exists>n. py_int s = Some n \<and> port (server cfg) = PInt n)) \<and>
       (getenv w ''OPENEDU_MCP_LOG_LEVEL'' = Some s \<longrightarrow> log_level (server cfg) = PStr s) \<and>
       (getenv w ''OPENEDU_MCP_DEBUG'' = Some s \<longrightarrow>
          debug (server cfg) = PBool (py_lower s = ''true'')) \<and>
       (getenv w ''OPENEDU_MCP_CACHE_PATH'' = Some s \<longrightarrow> database_path (cache cfg) = PStr s) \<and>
       (getenv w ''OPENEDU_MCP_CACHE_TTL'' = Some s \<longrightarrow>
          (\<exists>n. py_int s = Some n \<and> default_ttl (cache cfg) = PInt n)) \<and>
       (getenv w ''OPENEDU_MCP_CACHE_MAX_SIZE_MB'' = Some s \<longrightarrow>
          (\<exists>n. py_int s = Some n \<and> max_size_mb (cache cfg) = PInt n)) \<and>
       (getenv w ''OPENEDU_MCP_OPEN_LIBRARY_RATE_LIMIT'' = Some s \<longrightarrow>
          (\<exists>n. py_int s = Some n \<and> rate_limit (open_library (apis cfg)) = PInt n)) \<and>
       (getenv w ''OPENEDU_MCP_WIKIPEDIA_RATE_LIMIT'' = Some s \<longrightarrow>
          (\<exists>n. py_int s = Some n \<and> rate_limit (wikipedia (apis cfg)) = PInt n)))"
proof (intro conjI allI impI)
  assume "getenv w ''OPENEDU_MCP_PORT'' = Some ''7000''"
  from load_env_fields(2) [OF assms _ this] show "port (server cfg) = PInt 7000"
    by (simp add: py_int_7000)
qed (rule load_env_fields [OF assms]; assumption)+

theorem env_overrides_take_precedence_witness:
  "map_sum id
     (\<lambda>c. (host (server c), port (server c), log_level (server c), debug (server c),
           database_path (cache c), default_ttl (cache c), max_size_mb (cache c),
           rate_limit (open_library (apis c)), rate_limit (wikipedia (apis c))))
     (load_config None (world_with (Inr file_port_9000) env_all_set))
   = Inr (PStr ''example.org'', PInt 7000, PStr ''DEBUG'', PBool True,
          PStr ''/tmp/c.db'', PInt 60, PInt 5, PInt 7, PInt 9)"
proof -
  let ?w = "world_with (Inr file_port_9000) env_all_set"
  have "\<not> isl (load_config None ?w)" by code_simp
  then obtain cfg where ld: "load_config None ?w = Inr cfg"
    by (cases "load_config None ?w") simp_all
  have g: "getenv ?w ''OPENEDU_MCP_HOST'' = Some ''example.org''"
    "getenv ?w ''OPENEDU_MCP_PORT'' = Some ''7000''"
    "getenv ?w ''OPENEDU_MCP_LOG_LEVEL'' = Some ''DEBUG''"
    "getenv ?w ''OPENEDU_MCP_DEBUG'' = Some ''True''"
    "getenv ?w ''OPENEDU_MCP_CACHE_PATH'' = Some ''/tmp/c.db''"
    "getenv ?w ''OPENEDU_MCP_CACHE_TTL'' = Some ''60''"
    "getenv ?w ''OPENEDU_MCP_CACHE_MAX_SIZE_MB'' = Some ''5''"
    "getenv ?w ''OPENEDU_MCP_OPEN_LIBRARY_RATE_LIMIT'' = Some ''7''"
    "getenv ?w ''OPENEDU_MCP_WIKIPEDIA_RATE_LIMIT'' = Some ''9''"
    by (simp_all add: world_with_def env_all_set_def)
  have p: "py_int ''60'' = Some 60" "py_int ''5'' = Some 5" "py_int ''7'' = Some 7"
    "py_int ''9'' = Some 9" "py_lower ''True'' = ''true''"
    by code_simp+
  note th = env_overrides_take_precedence [OF ld]
  from th g(2) have 2: "port (server cfg) = PInt 7000" by blast
  from th [THEN conjunct2, rule_format, of "''example.org''"] g(1)
  have 1: "host (server cfg) = PStr ''example.org''" by simp
  from th [THEN conjunct2, rule_format, of "''DEBUG''"] g(3)
  have 3: "log_level (server cfg) = PStr ''DEBUG''" by simp
  from th [THEN conjunct2, rule_format, of "''True''"] g(4) p(5)
  have 4: "debug (server cfg) = PBool True" by simp
  from th [THEN conjunct2, rule_format, of "''/tmp/c.db''"] g(5)
  have 5: "database_path (cache cfg) = PStr ''/tmp/c.db''" by simp
  from th [THEN conjunct2, rule_format, of "''60''"] g(6) p(1)
  have 6: "default_ttl (cache cfg) = PInt 60" by simp
  from th [THEN conjunct2, rule_format, of "''5''"] g(7) p(2)
  have 7: "max_size_mb (cache cfg) = PInt 5" by simp
  from th [THEN conjunct2, rule_format, of "''7''"] g(8) p(3)
  have 8: "rate_limit (open_library (apis cfg)) = PInt 7" by simp
  from th [THEN conjunct2, rule_format, of "''9''"] g(9) p(4)
  have 9: "rate_limit (wikipedia (apis cfg)) = PInt 9" by simp
  from ld 1 2 3 4 5 6 7 8 9 show ?thesis by simp
qed

section \<open>What the merge does at each key\<close>

text \<open>
  C5. For an override with distinct keys (as every dict has), the merged
  mapping at a key of the override is the recursive merge when both sides hold
  a dict there and the override's value otherwise (a list or a scalar
  replaces, nothing is concatenated); at every other key it is what the base
  holds. The keys of the result stay distinct, so this describes the whole
  result.
\<close>

theorem merge_configs_by_key:
  assumes "distinct (map fst override)"
  shows "map_of (merge_configs base override) k =
           (case map_of override k of
              None \<Rightarrow> map_of base k
            | Some v \<Rightarrow>
                (case (map_of base k, v) of
                   (Some (PDict b), PDict ov) \<Rightarrow> Some (PDict (merge_configs b ov))
                 | _ \<Rightarrow> Some v))
         \<and> (distinct (map fst base) \<longrightarrow> distinct (map fst (merge_configs base override)))"
  using map_of_merge [OF assms, of base k] distinct_merge [of base override]
  by (auto split: option.splits pyval.splits)

theorem merge_configs_by_key_witness:
  "distinct (map fst merge_override_example) \<and> distinct (map fst merge_base_example) \<and>
   map_of (merge_configs merge_base_example merge_override_example) ''server''
     = Some (PDict [(''host'', PStr ''a''), (''port'', PInt 7000)]) \<and>
   map_of (merge_configs merge_base_example merge_override_example) ''education''
     = Some (PDict [(''subjects'', PList [PStr ''Art''])]) \<and>
   map_of (merge_configs merge_base_example merge_override_example) ''cache''
     = Some (PDict [(''default_ttl'', PInt 5)]) \<and>
   map_of (merge_configs merge_base_example merge_override_example) ''monitoring''
     = Some (PBool True) \<and>
   map_of (merge_configs merge_base_example merge_override_example) ''logging''
     = Some (PDict [(''level'', PStr ''INFO'')]) \<and>
   distinct (map fst (merge_configs merge_base_example merge_override_example))"
proof -
  have d: "distinct (map fst merge_override_example)"
    by (simp add: merge_override_example_def)
  have db: "distinct (map fst merge_base_example)"
    by (simp add: merge_base_example_def)
  note th = merge_configs_by_key [OF d, of merge_base_example]
  have "map_of (merge_configs merge_base_example merge_override_example) ''server''
     = Some (PDict [(''host'', PStr ''a''), (''port'', PInt 7000)])"
    using th [of "''server''"] by (simp add: merge_override_example_def merge_base_example_def)
  moreover have "map_of (merge_configs merge_base_example merge_override_example) ''education''
     = Some (PDict [(''subjects'', PList [PStr ''Art''])])"
    using th [of "''education''"] by (simp add: merge_override_example_def merge_base_example_def)
  moreover have "map_of (merge_configs merge_base_example merge_override_example) ''cache''
     = Some (PDict [(''default_ttl'', PInt 5)])"
    using th [of "''cache''"] by (simp add: merge_override_example_def merge_base_example_def)
  moreover have "map_of (merge_configs merge_base_example merge_override_example) ''monitoring''
     = Some (PBool True)"
    using th [of "''monitoring''"] by (simp add: merge_override_example_def merge_base_example_def)
  moreover have "map_of (merge_configs merge_base_example merge_override_example) ''logging''
     = Some (PDict [(''level'', PStr ''INFO'')])"
    using th [of "''logging''"] by (simp add: merge_override_example_def merge_base_example_def)
  moreover have "distinct (map fst (merge_configs merge_base_example merge_override_example))"
    using th [of "''x''"] db by blast
  ultimately show ?thesis using d db by blast
qed

section \<open>The empty string in an override variable\<close>

text \<open>
  C10. An override variable that is set to the empty string is treated as if
  it were not set: unsetting it changes neither the overrides nor the result
  of \<^verbatim>\<open>load_config\<close>, so it contributes nothing and raises nothing, also
  for the variables that go through \<^verbatim>\<open>int\<close>.
\<close>

theorem empty_value_is_unset:
  assumes "var \<in> set override_vars" "getenv w var = Some []"
  shows "get_env_overrides ((getenv w)(var := None)) = get_env_overrides (getenv w)
       \<and> load_config cp (w\<lparr>getenv := (getenv w)(var := None)\<rparr>) = load_config cp w"
proof -
  have e: "get_env_overrides ((getenv w)(var := None)) = get_env_overrides (getenv w)"
    by (simp only: get_env_overrides_steps run_steps_unset [of "getenv w" var, OF assms(2)])
  have "((getenv w)(var := None)) ''OPENEDU_MCP_CONFIG_PATH'' = getenv w ''OPENEDU_MCP_CONFIG_PATH''"
    using override_var_not_path [OF assms(1)] by simp
  from load_file_getenv [of "(getenv w)(var := None)" w cp, OF this] e show ?thesis
    by (simp add: load_config_def)
qed

theorem empty_value_is_unset_witness:
  "get_env_overrides (only_var ''OPENEDU_MCP_PORT'' '''') = Inr [] \<and>
   load_config None (world_with (Inr file_port_9000) (only_var ''OPENEDU_MCP_PORT'' ''''))
     = load_config None (world_with (Inr file_port_9000) (\<lambda>v. None)) \<and>
   map_sum id (\<lambda>c. port (server c))
     (load_config None (world_with (Inr file_port_9000) (only_var ''OPENEDU_MCP_PORT'' '''')))
     = Inr (PInt 9000)"
proof -
  let ?w = "world_with (Inr file_port_9000) (only_var ''OPENEDU_MCP_PORT'' '''')"
  have v: "''OPENEDU_MCP_PORT'' \<in> set override_vars" by (simp add: override_vars_def)
  have g: "getenv ?w ''OPENEDU_MCP_PORT'' = Some []" by (simp add: world_with_def only_var_def)
  have u: "(getenv ?w)(''OPENEDU_MCP_PORT'' := None) = (\<lambda>v. None)"
    by (rule ext) (simp add: world_with_def only_var_def)
  have w': "?w\<lparr>getenv := (\<lambda>v. None)\<rparr> = world_with (Inr file_port_9000) (\<lambda>v. None)"
    by (simp add: world_with_def)
  have n: "get_env_overrides (\<lambda>v. None) = Inr []" by code_simp
  have p: "map_sum id (\<lambda>c. port (server c))
     (load_config None (world_with (Inr file_port_9000) (\<lambda>v. None))) = Inr (PInt 9000)"
    by code_simp
  from empty_value_is_unset [OF v g, of None]
  have "get_env_overrides (getenv ?w) = Inr []"
    and "load_config None ?w = load_config None (world_with (Inr file_port_9000) (\<lambda>v. None))"
    unfolding u w' using n by simp_all
  moreover have "getenv ?w = only_var ''OPENEDU_MCP_PORT'' ''''" by (simp add: world_with_def)
  ultimately show ?thesis using p by simp
qed

section \<open>An integer variable that does not parse\<close>

text \<open>
  C6. When one of the five integer variables holds a non-empty string that
  \<^verbatim>\<open>int\<close> rejects (a string that is not a number, or one with more digits than
  the interpreter's limit), \<^verbatim>\<open>_get_env_overrides\<close> raises ValueError (the
  coercion error) and \<^verbatim>\<open>load_config\<close> returns no configuration. The file is read before the
  environment, so the error of \<^verbatim>\<open>load_config\<close> is the ValueError exactly when
  the file step did not fail itself; otherwise it is the file step's error.
\<close>

theorem unparseable_integer_aborts:
  assumes "var \<in> set int_vars" "getenv w var = Some s" "s \<noteq> []" "py_int s = None"
  shows "get_env_overrides (getenv w) = Inl ValueError \<and>
         load_config cp w = (case load_file cp w of Inl e \<Rightarrow> Inl e | Inr data \<Rightarrow> Inl ValueError)"
proof -
  from int_var_row [OF assms(1)] obtain p k where
    row: "(var, AsInt, p, k) \<in> set override_table" by blast
  have "coerce AsInt s = None" using assms(4) by simp
  from run_steps_bad_int [where env = "getenv w", OF row assms(2,3) this]
  have e: "get_env_overrides (getenv w) = Inl ValueError"
    by (simp add: get_env_overrides_steps)
  then show ?thesis
    by (cases "load_file cp w") (simp_all add: load_config_def bind_err_def)
qed

theorem unparseable_integer_aborts_witness:
  "py_int ''abc'' = None \<and>
   load_config None (world_with (Inr file_port_9000) (only_var ''OPENEDU_MCP_PORT'' ''abc''))
     = Inl ValueError \<and>
   py_int (replicate 4301 (CHR ''0'')) = None \<and>
   load_config None
     (world_with (Inr file_port_9000)
        (only_var ''OPENEDU_MCP_CACHE_TTL'' (replicate 4301 (CHR ''0''))))
     = Inl ValueError"
proof -
  let ?w = "world_with (Inr file_port_9000) (only_var ''OPENEDU_MCP_PORT'' ''abc'')"
  let ?z = "replicate 4301 (CHR ''0'')"
  let ?w2 = "world_with (Inr file_port_9000) (only_var ''OPENEDU_MCP_CACHE_TTL'' ?z)"
  have v: "''OPENEDU_MCP_PORT'' \<in> set int_vars" by (simp add: int_vars_def)
  have g: "getenv ?w ''OPENEDU_MCP_PORT'' = Some ''abc''" by (simp add: world_with_def only_var_def)
  have n: "py_int ''abc'' = None" by code_simp
  have f: "load_file None ?w = Inr file_port_9000" by code_simp
  from unparseable_integer_aborts [OF v g _ n, of None] f
  have 1: "load_config None ?w = Inl ValueError" by simp
  have v2: "''OPENEDU_MCP_CACHE_TTL'' \<in> set int_vars" by (simp add: int_vars_def)
  have g2: "getenv ?w2 ''OPENEDU_MCP_CACHE_TTL'' = Some ?z" by (simp add: world_with_def only_var_def)
  have n2: "py_int ?z = None"
    by (rule py_int_too_many_digits) (simp_all add: list_all_iff is_digit_def int_max_str_digits_def)
  have z: "?z \<noteq> []" by simp
  have f2: "load_file None ?w2 = Inr file_port_9000"
    by (simp add: load_file_def resolve_file_def possible_paths_def world_with_def only_var_def
        bind_err_def file_port_9000_def)
  from unparseable_integer_aborts [OF v2 g2 z n2, of None] f2
  have 2: "load_config None ?w2 = Inl ValueError" by simp
  from n 1 n2 2 show ?thesis by blast
qed

text \<open>
  That the failure is always the coercion error does not hold: with a
  malformed file the parse error comes first.
\<close>

theorem unparseable_integer_malformed_file:
  "py_int ''abc'' = None \<and>
   load_config None (world_with (Inl YAMLError) (only_var ''OPENEDU_MCP_PORT'' ''abc''))
     = Inl YAMLError"
  by code_simp

section \<open>The debug variable\<close>

text \<open>
  C7. When the debug variable holds a non-empty string and \<^verbatim>\<open>load_config\<close>
  returns, \<^verbatim>\<open>server.debug\<close> is true exactly when the string is the word
  \<^verbatim>\<open>true\<close> in any mix of cases, and false for every other non-empty string,
  whatever the file says.
\<close>

theorem debug_override_nonempty:
  assumes "load_config cp w = Inr cfg" "getenv w ''OPENEDU_MCP_DEBUG'' = Some s" "s \<noteq> []"
  shows "debug (server cfg) = PBool (py_lower s = ''true'') \<and>
         (py_lower s = ''true'') = is_true_literal s"
  using load_env_fields(4) [OF assms(1,3,2)] py_lower_true [of s] by simp

theorem debug_override_nonempty_witness:
  "map_sum id (\<lambda>c. debug (server c))
     (load_config None (world_with (Inr file_port_9000) (only_var ''OPENEDU_MCP_DEBUG'' ''TRUE'')))
     = Inr (PBool True) \<and>
   map_sum id (\<lambda>c. debug (server c))
     (load_config None (world_with (Inr file_debug_true) (only_var ''OPENEDU_MCP_DEBUG'' ''yes'')))
     = Inr (PBool False)"
proof -
  let ?w1 = "world_with (Inr file_port_9000) (only_var ''OPENEDU_MCP_DEBUG'' ''TRUE'')"
  let ?w2 = "world_with (Inr file_debug_true) (only_var ''OPENEDU_MCP_DEBUG'' ''yes'')"
  have "\<not> isl (load_config None ?w1)" by code_simp
  then obtain c1 where l1: "load_config None ?w1 = Inr c1"
    by (cases "load_config None ?w1") simp_all
  have "\<not> isl (load_config None ?w2)" by code_simp
  then obtain c2 where l2: "load_config None ?w2 = Inr c2"
    by (cases "load_config None ?w2") simp_all
  have g1: "getenv ?w1 ''OPENEDU_MCP_DEBUG'' = Some ''TRUE''"
    by (simp add: world_with_def only_var_def)
  have g2: "getenv ?w2 ''OPENEDU_MCP_DEBUG'' = Some ''yes''"
    by (simp add: world_with_def only_var_def)
  have "debug (server c1) = PBool True"
    using debug_override_nonempty [OF l1 g1] by simp
  moreover have "debug (server c2) = PBool False"
    using debug_override_nonempty [OF l2 g2] by simp
  ultimately show ?thesis using l1 l2 by simp
qed

text \<open>
  For the empty string the unrestricted statement fails: the variable is set,
  its value is not the word \<^verbatim>\<open>true\<close>, and yet \<^verbatim>\<open>server.debug\<close> is what the file
  says.
\<close>

theorem debug_empty_value_keeps_file:
  "map_sum id (\<lambda>c. debug (server c))
     (load_config None (world_with (Inr file_debug_true) (only_var ''OPENEDU_MCP_DEBUG'' '''')))
     = Inr (PBool True) \<and>
   \<not> is_true_literal ''''"
  by code_simp

section \<open>Keys outside the schema\<close>




section \<open>The merge is pure and deterministic\<close>

text \<open>
  C9. On the store of dicts: a call of the merge that returns leaves every dict
  that existed before the call as it was, so neither \<^verbatim>\<open>base\<close> nor \<^verbatim>\<open>override\<close>
  nor anything they refer to is mutated, and it returns a dict that did not
  exist before. When \<^verbatim>\<open>base\<close> and \<^verbatim>\<open>override\<close> stand for values (they are in the
  store and do not contain themselves), the call does return, both arguments
  stand for the same values afterwards, the result stands for the merge of
  the two values, and a second call with the same arguments returns a result
  that stands for the same value.
\<close>

theorem merge_st_pure_and_deterministic:
  "(\<forall>n s' r. merge_st n s base override = Some (s', r) \<longrightarrow>
       (\<forall>a < length s. s' ! a = s ! a) \<and> length s \<le> r \<and> r < length s') \<and>
   (denotes s (HRef base) (PDict B) \<and> denotes s (HRef override) (PDict O') \<longrightarrow>
      (\<exists>n s' r. merge_st n s base override = Some (s', r)) \<and>
      (\<forall>n s' r. merge_st n s base override = Some (s', r) \<longrightarrow>
         denotes s' (HRef base) (PDict B) \<and> denotes s' (HRef override) (PDict O') \<and>
         denotes s' (HRef r) (PDict (merge_configs B O')) \<and>
         (\<exists>n2 s'' r2. merge_st n2 s' base override = Some (s'', r2)) \<and>
         (\<forall>n2 s'' r2. merge_st n2 s' base override = Some (s'', r2) \<longrightarrow>
            denotes s'' (HRef r2) (PDict (merge_configs B O')))))"
proof (rule conjI)
  show "\<forall>n s' r. merge_st n s base override = Some (s', r) \<longrightarrow>
       (\<forall>a < length s. s' ! a = s ! a) \<and> length s \<le> r \<and> r < length s'"
  proof (intro allI impI)
    fix n s' r
    assume m: "merge_st n s base override = Some (s', r)"
    from merge_st_frame(4) [OF m] have "\<forall>a < length s. s' ! a = s ! a" by blast
    with merge_st_frame(1,2) [OF m]
    show "(\<forall>a < length s. s' ! a = s ! a) \<and> length s \<le> r \<and> r < length s'" by blast
  qed
next
  show "denotes s (HRef base) (PDict B) \<and> denotes s (HRef override) (PDict O') \<longrightarrow>
      (\<exists>n s' r. merge_st n s base override = Some (s', r)) \<and>
      (\<forall>n s' r. merge_st n s base override = Some (s', r) \<longrightarrow>
         denotes s' (HRef base) (PDict B) \<and> denotes s' (HRef override) (PDict O') \<and>
         denotes s' (HRef r) (PDict (merge_configs B O')) \<and>
         (\<exists>n2 s'' r2. merge_st n2 s' base override = Some (s'', r2)) \<and>
         (\<forall>n2 s'' r2. merge_st n2 s' base override = Some (s'', r2) \<longrightarrow>
            denotes s'' (HRef r2) (PDict (merge_configs B O'))))"
  proof
    assume "denotes s (HRef base) (PDict B) \<and> denotes s (HRef override) (PDict O')"
    then have B: "denotes s (HRef base) (PDict B)" and O: "denotes s (HRef override) (PDict O')"
      by simp_all
    have ret: "\<exists>n s' r. merge_st n s base override = Some (s', r)"
      using merge_st_returns [OF B O] by blast
    have after: "denotes s' (HRef base) (PDict B) \<and> denotes s' (HRef override) (PDict O') \<and>
         denotes s' (HRef r) (PDict (merge_configs B O')) \<and>
         (\<exists>n2 s'' r2. merge_st n2 s' base override = Some (s'', r2)) \<and>
         (\<forall>n2 s'' r2. merge_st n2 s' base override = Some (s'', r2) \<longrightarrow>
            denotes s'' (HRef r2) (PDict (merge_configs B O')))"
      if m: "merge_st n s base override = Some (s', r)" for n s' r
    proof -
      note fr = merge_st_frame [OF m]
      have B': "denotes s' (HRef base) (PDict B)" by (rule denotes_frame [OF B fr(3) fr(4)])
      have O'': "denotes s' (HRef override) (PDict O')" by (rule denotes_frame [OF O fr(3) fr(4)])
      have 2: "denotes s' (HRef r) (PDict (merge_configs B O'))" by (rule merge_st_result [OF B O m])
      have 3: "\<exists>n2 s'' r2. merge_st n2 s' base override = Some (s'', r2)"
        using merge_st_returns [OF B' O''] by blast
      have 4: "\<forall>n2 s'' r2. merge_st n2 s' base override = Some (s'', r2) \<longrightarrow>
            denotes s'' (HRef r2) (PDict (merge_configs B O'))"
        using merge_st_result [OF B' O''] by blast
      from B' O'' 2 3 4 show ?thesis by blast
    qed
    from ret after show "(\<exists>n s' r. merge_st n s base override = Some (s', r)) \<and>
      (\<forall>n s' r. merge_st n s base override = Some (s', r) \<longrightarrow>
         denotes s' (HRef base) (PDict B) \<and> denotes s' (HRef override) (PDict O') \<and>
         denotes s' (HRef r) (PDict (merge_configs B O')) \<and>
         (\<exists>n2 s'' r2. merge_st n2 s' base override = Some (s'', r2)) \<and>
         (\<forall>n2 s'' r2. merge_st n2 s' base override = Some (s'', r2) \<longrightarrow>
            denotes s'' (HRef r2) (PDict (merge_configs B O'))))"
      by blast
  qed
qed

theorem merge_st_pure_and_deterministic_witness:
  "merge_st 10 st0 0 2 = Some (st0_after, 4) \<and> take 4 st0_after = st0 \<and>
   st0_after ! 0 = st0 ! 0 \<and> st0_after ! 2 = st0 ! 2 \<and>
   denotes st0_after (HRef 0) (PDict st0_base) \<and> denotes st0_after (HRef 2) (PDict st0_override) \<and>
   denotes st0_after (HRef 4) (PDict st0_merged) \<and>
   (\<exists>s'' r2. merge_st 10 st0_after 0 2 = Some (s'', r2) \<and> denotes s'' (HRef r2) (PDict st0_merged))"
proof -
  have m: "merge_st 10 st0 0 2 = Some (st0_after, 4)" by code_simp
  have B: "denotes st0 (HRef 0) (PDict st0_base)"
    unfolding denotes_def by (rule exI [of _ 3]) code_simp
  have O: "denotes st0 (HRef 2) (PDict st0_override)"
    unfolding denotes_def by (rule exI [of _ 3]) code_simp
  have mg: "merge_configs st0_base st0_override = st0_merged" by code_simp
  have t: "take 4 st0_after = st0" by (simp add: st0_after_def st0_def)
  have "merge_st 10 st0_after 0 2 \<noteq> None" by code_simp
  then obtain s'' r2 where m2: "merge_st 10 st0_after 0 2 = Some (s'', r2)" by auto
  note th = merge_st_pure_and_deterministic [of st0 0 2 st0_base st0_override,
      THEN conjunct2, rule_format, OF conjI [OF B O], THEN conjunct2, rule_format, OF m]
  from th have d: "denotes st0_after (HRef 0) (PDict st0_base)"
    "denotes st0_after (HRef 2) (PDict st0_override)"
    "denotes st0_after (HRef 4) (PDict st0_merged)"
    "denotes s'' (HRef r2) (PDict st0_merged)"
    using m2 unfolding mg by blast+
  have l: "length st0 = 4" by (simp add: st0_def)
  from merge_st_pure_and_deterministic [of st0 0 2, THEN conjunct1, rule_format, OF m]
  have "\<forall>a < 4. st0_after ! a = st0 ! a" unfolding l by blast
  then have f: "st0_after ! 0 = st0 ! 0" "st0_after ! 2 = st0 ! 2" by simp_all
  from m t f d m2 show ?thesis by blast
qed

end
